theory Spec2Isabelle
  imports Complex_Main "HOL-Library.Multiset"
begin

section \<open>Numbers and rounding\<close>

text \<open>
  The explainers compute on NumPy floats. They are modelled here by the reals: every
  arithmetic step is exact, so a statement below is about the algorithm, not about the
  rounding error of a double.

  Python's \<^verbatim>\<open>round(x)\<close> rounds to the nearest integer and sends a tie to the even
  neighbour; \<^verbatim>\<open>round(x, n)\<close> does the same on the n-th decimal.
\<close>

definition py_round :: "real \<Rightarrow> int" where
  "py_round x =
     (let f = \<lfloor>x\<rfloor>; d = x - of_int f
      in if d < 1 / 2 then f
         else if 1 / 2 < d then f + 1
         else if even f then f else f + 1)"

definition py_round_nd :: "real \<Rightarrow> nat \<Rightarrow> real" where
  "py_round_nd x n = of_int (py_round (x * 10 ^ n)) / 10 ^ n"

section \<open>Target resolution\<close>

text \<open>
  \<^verbatim>\<open>desired_class\<close> is the string "opposite" or a class (0 or 1).
  Both \<^verbatim>\<open>DiceGenetic.find_counterfactuals\<close> (lines 213-222) and
  \<^verbatim>\<open>ExplainerBase.generate_counterfactuals\<close> (lines 108-117) resolve it the same way:
  \<^verbatim>\<open>
  if desired_class == "opposite":
      desired_class = 1.0 - round(test_pred)
  self.target_cf_class = desired_class
  self.stopping_threshold = stopping_threshold
  if self.target_cf_class == 0 and self.stopping_threshold > 0.5:
      self.stopping_threshold = 0.25
  elif self.target_cf_class == 1 and self.stopping_threshold < 0.5:
      self.stopping_threshold = 0.75
  \<close>
\<close>

datatype desired = Opposite | Class real

definition resolve_class :: "real \<Rightarrow> desired \<Rightarrow> real" where
  "resolve_class test_pred desired_class =
     (case desired_class of
        Opposite \<Rightarrow> 1 - of_int (py_round test_pred)
      | Class c \<Rightarrow> c)"

definition resolve_threshold :: "real \<Rightarrow> real \<Rightarrow> real" where
  "resolve_threshold target_cf_class stopping_threshold =
     (if target_cf_class = 0 \<and> stopping_threshold > 0.5 then 0.25
      else if target_cf_class = 1 \<and> stopping_threshold < 0.5 then 0.75
      else stopping_threshold)"

definition resolve_target :: "real \<Rightarrow> desired \<Rightarrow> real \<Rightarrow> real \<times> real" where
  "resolve_target test_pred desired_class stopping_threshold =
     (let c = resolve_class test_pred desired_class
      in (c, resolve_threshold c stopping_threshold))"

text \<open>
  The validity predicate of both searches: a prediction is valid when it lies on the
  desired side of the resolved threshold, the threshold itself included.
\<close>

definition is_valid :: "real \<Rightarrow> real \<Rightarrow> real \<Rightarrow> bool" where
  "is_valid target_cf_class stopping_threshold pred =
     ((target_cf_class = 0 \<and> pred \<le> stopping_threshold) \<or>
      (target_cf_class = 1 \<and> pred \<ge> stopping_threshold))"

text \<open>
  C5. With "opposite" the resolved class is \<open>1 - round p0\<close>. Afterwards a threshold above
  0.5 becomes 0.25 for class 0, a threshold below 0.5 becomes 0.75 for class 1, and in
  every other case the supplied threshold is kept; a threshold of exactly 0.5 is never
  changed.
\<close>

theorem target_resolution:
  "fst (resolve_target p0 Opposite t) = 1 - of_int (py_round p0) \<and>
   fst (resolve_target p0 (Class k) t) = k \<and>
   (fst (resolve_target p0 d t) = 0 \<and> t > 0.5 \<longrightarrow> snd (resolve_target p0 d t) = 0.25) \<and>
   (fst (resolve_target p0 d t) = 1 \<and> t < 0.5 \<longrightarrow> snd (resolve_target p0 d t) = 0.75) \<and>
   (\<not> (fst (resolve_target p0 d t) = 0 \<and> t > 0.5) \<and>
    \<not> (fst (resolve_target p0 d t) = 1 \<and> t < 0.5) \<longrightarrow> snd (resolve_target p0 d t) = t) \<and>
   snd (resolve_target p0 d 0.5) = 0.5"
  by (simp add: resolve_target_def resolve_class_def resolve_threshold_def Let_def)

theorem target_resolution_witness:
  "fst (resolve_target 0.3 Opposite 0.4) = 1 \<and>
   snd (resolve_target 0.3 Opposite 0.4) = 0.75 \<and>
   snd (resolve_target 0.8 Opposite 0.6) = 0.25 \<and>
   snd (resolve_target 0.8 (Class 1) 0.6) = 0.6 \<and>
   snd (resolve_target 0.8 (Class 1) 0.5) = 0.5"
proof -
  have r3: "py_round 0.3 = 0" and r8: "py_round 0.8 = 1"
    by (simp_all add: py_round_def Let_def)
  have c3: "fst (resolve_target 0.3 Opposite 0.4) = 1"
    using target_resolution [of "0.3" "0.4" 0 Opposite] r3 by simp
  have c8: "fst (resolve_target 0.8 Opposite 0.6) = 0"
    using target_resolution [of "0.8" "0.6" 0 Opposite] r8 by simp
  have k1: "fst (resolve_target 0.8 (Class 1) t) = 1" for t
    using target_resolution [of "0.8" t 1 Opposite] by simp
  show ?thesis
    using c3 c8 k1 [of "0.6"] k1 [of "0.5"]
      target_resolution [of "0.3" "0.4" 0 Opposite]
      target_resolution [of "0.8" "0.6" 0 Opposite]
      target_resolution [of "0.8" "0.6" 1 "Class 1"]
      target_resolution [of "0.8" "0.5" 1 "Class 1"]
    by simp
qed

section \<open>Errors and the explainer's state\<close>

text \<open>
  Every exception the modelled code can raise is a value; a function that can raise
  returns \<open>py_error + 'a\<close> with \<open>Inl\<close> for the exception. An IndexError names the
  sequence that was indexed out of range.
\<close>

datatype indexed = CfList | PredList | FeatureVector | DecimalPrec | ContRange
  | Population | CfSet | Bounds | Block | Parts | Choice

datatype py_error = IndexError indexed | ValueError | KeyError | ZeroDivisionError
  | UnboundLocalError | TypeError

text \<open>
  The attributes of \<^verbatim>\<open>self\<close> that the modelled methods read or write. An array of
  shape (1, n) is the list of its n entries; \<^verbatim>\<open>predict_fn\<close> is the prediction oracle on
  one such row. \<^verbatim>\<open>self.cfs\<close> is the population of the genetic search: a list of
  counterfactual sets, each a list of arrays. \<^verbatim>\<open>features_to_vary\<close> is the string "all" or
  a list of feature names; \<^verbatim>\<open>cf_init_weights\<close> is empty before the first initialisation.

  The data interface is an external collaborator: the record holds what its methods
  return (the feature names in both encodings, the decimal precisions, the
  dictionaries of quantiles and median absolute deviations, as association lists with
  distinct keys, and the indices of the features that may vary).
\<close>

datatype vary = All | Features "string list"

record data_interface =
  feature_names :: "string list"
  encoded_feature_names :: "string list"
  decimal_precisions :: "nat list"
  normalized_quantiles :: "(string \<times> real) list"
  normalized_mads :: "(string \<times> real) list"
  get_indexes_of_features_to_vary :: "vary \<Rightarrow> nat list"

record explainer =
  data_interface :: data_interface
  predict_fn :: "real list \<Rightarrow> real"
  total_CFs :: int
  total_random_inits :: int
  population_size :: nat
  minx :: "real list"
  maxx :: "real list"
  cont_minx :: "real list"
  cont_maxx :: "real list"
  encoded_continuous_feature_indexes :: "nat list"
  encoded_categorical_feature_indexes :: "nat list list"
  feature_weights_list :: "real list"
  yloss_type :: string
  diversity_loss_type :: string
  proximity_weight :: real
  diversity_weight :: real
  categorical_penalty :: real
  x1 :: "real list"
  target_cf_class :: real
  stopping_threshold :: real
  cfs :: "real list list list"
  features_to_vary :: vary
  feat_to_vary_idxs :: "nat list"
  freezer :: "real list"
  cf_init_weights :: "(int \<times> string \<times> vary) option"

section \<open>Loss model: the determinantal diversity score\<close>

text \<open>
  \<^verbatim>\<open>compute_dist\<close> (dice_genetic.py, line 102): the weighted L1 distance
  \<^verbatim>\<open>np.sum(np.multiply(abs(x_hat - x1), self.feature_weights_list))\<close>. The three arrays
  have the same shape in every call of the program; the model pairs their entries.
\<close>

definition compute_dist :: "explainer \<Rightarrow> real list \<Rightarrow> real list \<Rightarrow> real" where
  "compute_dist self x_hat x1' =
     sum_list (map2 (\<lambda>d w. d * w) (map2 (\<lambda>a b. \<bar>a - b\<bar>) x_hat x1')
       (feature_weights_list self))"

text \<open>
  \<^verbatim>\<open>dpp_style\<close> (lines 113-133) fills \<^verbatim>\<open>det_entries\<close> row by row, reshapes the list
  into a square matrix and takes its determinant. \<^verbatim>\<open>cfs[i]\<close> raises IndexError when
  \<^verbatim>\<open>total_CFs\<close> exceeds the length of \<^verbatim>\<open>cfs\<close>; a submethod that is neither of the two
  leaves the list empty, and \<^verbatim>\<open>np.reshape\<close> raises ValueError when the number of entries
  is not \<^verbatim>\<open>total_CFs * total_CFs\<close> or \<^verbatim>\<open>total_CFs\<close> is negative.
\<close>

definition det_entries :: "explainer \<Rightarrow> string \<Rightarrow> real list list \<Rightarrow> py_error + real list" where
  "det_entries self submethod cs =
     (let n = nat (total_CFs self) in
      if submethod = ''inverse_dist'' then
        (if length cs < n then Inl (IndexError CfSet)
         else Inr (concat (map (\<lambda>i. map (\<lambda>j.
                let det_temp_entry = 1 / (1 + compute_dist self (cs ! i) (cs ! j))
                in if i = j then det_temp_entry + 0.0001 else det_temp_entry)
              [0..<n]) [0..<n])))
      else if submethod = ''exponential_dist'' then
        (if length cs < n then Inl (IndexError CfSet)
         else Inr (concat (map (\<lambda>i. map (\<lambda>j.
                1 / exp (compute_dist self (cs ! i) (cs ! j)))
              [0..<n]) [0..<n])))
      else Inr [])"

fun rows_of :: "nat \<Rightarrow> nat \<Rightarrow> 'a list \<Rightarrow> 'a list list" where
  "rows_of 0 w xs = []"
| "rows_of (Suc k) w xs = take w xs # rows_of k w (drop w xs)"

definition reshape_square :: "int \<Rightarrow> real list \<Rightarrow> py_error + real list list" where
  "reshape_square n xs =
     (if n < 0 \<or> length xs \<noteq> nat n * nat n then Inl ValueError
      else Inr (rows_of (nat n) (nat n) xs))"

text \<open>
  The determinant of a square matrix given by its rows, by expansion along the first
  row, in exact arithmetic. \<^verbatim>\<open>np.linalg.det\<close> works on IEEE doubles (an LU factorisation
  of LAPACK, outside this repository) and returns a double close to this number:
  \<open>det\<close>, and with it \<open>dpp_style\<close> and the losses built on it, are the values that the
  program approximates, not its doubles bit for bit. The subsection on double precision
  below says what the doubles of the kernel are.
\<close>

fun delete_at :: "nat \<Rightarrow> 'a list \<Rightarrow> 'a list" where
  "delete_at j xs = take j xs @ drop (Suc j) xs"

function det :: "real list list \<Rightarrow> real" where
  "det [] = 1"
| "det (r # rows) =
     sum_list (map (\<lambda>j. (- 1) ^ j * (r ! j) * det (map (delete_at j) rows)) [0..<length r])"
  by pat_completeness auto
termination
  by (relation "measure length") auto

definition dpp_kernel :: "explainer \<Rightarrow> string \<Rightarrow> real list list \<Rightarrow> py_error + real list list" where
  "dpp_kernel self submethod cs =
     (case det_entries self submethod cs of
        Inl e \<Rightarrow> Inl e
      | Inr es \<Rightarrow> reshape_square (total_CFs self) es)"

definition dpp_style :: "explainer \<Rightarrow> string \<Rightarrow> real list list \<Rightarrow> py_error + real" where
  "dpp_style self submethod cs =
     (case dpp_kernel self submethod cs of
        Inl e \<Rightarrow> Inl e
      | Inr k \<Rightarrow> Inr (det k))"


lemma upt_two: "[0..<2] = [0, Suc 0]"
  by (simp add: numeral_2_eq_2)


subsection \<open>Double precision\<close>





















text \<open>
  An explainer over two continuous features of range \<open>[0, 1]\<close> and precision 1, whose
  oracle returns the first feature; class 1 is wanted at threshold 0.5, in sets of two.
\<close>

definition two_features :: data_interface where
  "two_features =
     \<lparr> feature_names = [''x'', ''y''], encoded_feature_names = [''x'', ''y''],
       decimal_precisions = [1, 1],
       normalized_quantiles = [(''x'', 0.5), (''y'', 0.3)],
       normalized_mads = [(''x'', 0.6), (''y'', 0.2)],
       get_indexes_of_features_to_vary =
         (\<lambda>v. case v of All \<Rightarrow> [0, 1]
            | Features fs \<Rightarrow> filter (\<lambda>i. [''x'', ''y''] ! i \<in> set fs) [0, 1]) \<rparr>"

definition two_cf_explainer :: explainer where
  "two_cf_explainer =
     \<lparr> data_interface = two_features,
       predict_fn = (\<lambda>x. x ! 0), total_CFs = 2, total_random_inits = 0,
       population_size = 100, minx = [0, 0], maxx = [1, 1], cont_minx = [0, 0],
       cont_maxx = [1, 1], encoded_continuous_feature_indexes = [0, 1],
       encoded_categorical_feature_indexes = [],
       feature_weights_list = [1, 1], yloss_type = ''l2_loss'',
       diversity_loss_type = ''dpp_style:inverse_dist'', proximity_weight = 0,
       diversity_weight = 0, categorical_penalty = 0, x1 = [0.2, 0.2],
       target_cf_class = 1,
       stopping_threshold = 0.5, cfs = [], features_to_vary = Features [],
       feat_to_vary_idxs = [], freezer = [], cf_init_weights = None \<rparr>"




section \<open>Independent sampling\<close>

subsection \<open>Continuous samples\<close>

text \<open>
  NumPy's generator is modelled by what it returns: each draw is a number \<open>u\<close> of the
  unit interval \<open>[0, 1)\<close>, \<^verbatim>\<open>np.random.uniform(lo, hi)\<close> is \<open>lo + (hi - lo) * u\<close>, and
  \<^verbatim>\<open>np.random.randint(lo, hi)\<close> is the integer \<open>lo + \<lfloor>u * (hi - lo)\<rfloor>\<close> of \<open>[lo, hi)\<close>; it
  raises ValueError when \<open>hi \<le> lo\<close>. The list of draws has one entry per sample.
\<close>

definition unit_draws :: "real list \<Rightarrow> bool" where
  "unit_draws us = list_all (\<lambda>u. 0 \<le> u \<and> u < 1) us"

definition np_uniform :: "real \<Rightarrow> real \<Rightarrow> real \<Rightarrow> real" where
  "np_uniform lo hi u = lo + (hi - lo) * u"

definition np_randint :: "int \<Rightarrow> int \<Rightarrow> real \<Rightarrow> int" where
  "np_randint lo hi u = lo + \<lfloor>u * of_int (hi - lo)\<rfloor>"

text \<open>
  \<^verbatim>\<open>get_continuous_samples\<close> (explainer_base.py, lines 389-399):
  \<^verbatim>\<open>
  if precision == 0:
      result = np.random.randint(low, high+1, size).tolist()
      result = [float(r) for r in result]
  else:
      result = np.random.uniform(low, high+(10**-precision), size)
      result = [round(r, precision) for r in result]
  \<close>
  With precision 0 the bounds of the range are the integers \<open>\<lfloor>low\<rfloor>\<close> and \<open>\<lfloor>high\<rfloor>\<close>.
\<close>

definition get_continuous_samples ::
  "real \<Rightarrow> real \<Rightarrow> nat \<Rightarrow> real list \<Rightarrow> py_error + real list" where
  "get_continuous_samples low high precision us =
     (if precision = 0 then
        (if \<lfloor>high\<rfloor> + 1 \<le> \<lfloor>low\<rfloor> then Inl ValueError
         else Inr (map (\<lambda>u. of_int (np_randint \<lfloor>low\<rfloor> (\<lfloor>high\<rfloor> + 1) u)) us))
      else
        Inr (map (\<lambda>u. py_round_nd (np_uniform low (high + 1 / 10 ^ precision) u) precision) us))"

lemma np_randint_range:
  assumes "0 \<le> u" "u < 1" "lo < hi"
  shows "lo \<le> np_randint lo hi u \<and> np_randint lo hi u < hi"
proof -
  have pos: "0 < (of_int (hi - lo) :: real)"
    using assms(3) by simp
  have "0 \<le> u * of_int (hi - lo)"
    using assms(1) pos by simp
  then have lower: "0 \<le> \<lfloor>u * of_int (hi - lo)\<rfloor>"
    by simp
  have "u * of_int (hi - lo) < 1 * of_int (hi - lo)"
    using assms(2) pos by (rule mult_strict_right_mono)
  then have "u * of_int (hi - lo) < of_int (hi - lo)"
    by simp
  then have upper: "\<lfloor>u * of_int (hi - lo)\<rfloor> < hi - lo"
    by (simp add: floor_less_iff)
  show ?thesis
    using lower upper by (simp add: np_randint_def)
qed

text \<open>
  With precision 0 every sample is an integer of the permitted range, both ends
  included.
\<close>

lemma integer_samples_in_range:
  assumes "unit_draws us" "get_continuous_samples (of_int lo) (of_int hi) 0 us = Inr rs"
    "lo \<le> hi"
  shows "list_all (\<lambda>r. \<exists>k. r = of_int k \<and> lo \<le> k \<and> k \<le> hi) rs"
proof -
  have rs: "rs = map (\<lambda>u. of_int (np_randint lo (hi + 1) u)) us"
    using assms(2,3) by (simp add: get_continuous_samples_def split: if_splits)
  have "lo \<le> np_randint lo (hi + 1) u \<and> np_randint lo (hi + 1) u \<le> hi"
    if "u \<in> set us" for u
  proof -
    have "0 \<le> u \<and> u < 1"
      using assms(1) that by (simp add: unit_draws_def list_all_iff)
    then show ?thesis
      using np_randint_range [of u lo "hi + 1"] assms(3) by simp
  qed
  then show ?thesis
    unfolding rs list_all_iff by auto
qed

text \<open>
  C8 (the code differs). With a positive precision the draw is taken from
  \<open>[low, high + 10\<^sup>-\<^sup>p)\<close> and then rounded, so a draw in the upper half of the last
  step is rounded to \<open>high + 10\<^sup>-\<^sup>p\<close>, outside the permitted range. Here the range is
  \<open>[0, 1]\<close>, the precision 1, and the generator's draw \<open>u = 0.98\<close> gives
  \<open>uniform = 1.078\<close>, rounded to \<open>1.1\<close>.
\<close>

theorem continuous_sample_above_range:
  "unit_draws [0.98] \<and>
   get_continuous_samples 0 1 1 [0.98] = Inr [1.1] \<and> (1.1 :: real) > 1"
  by (simp add: unit_draws_def get_continuous_samples_def np_uniform_def py_round_nd_def
      py_round_def Let_def)

subsection \<open>Selecting the valid samples\<close>

text \<open>
  \<^verbatim>\<open>generate_counterfactuals\<close> (explainer_base.py, lines 127-144 and 157-162) scores
  the sampled rows and keeps the valid ones:
  \<^verbatim>\<open>
  cfs_df['validity'] = ... 1 if ((target == 0 and pred <= threshold) or
                                 (target == 1 and pred >= threshold)) else 0
  self.total_cfs_found = cfs_df[cfs_df['validity']==1].shape[0]
  if self.total_cfs_found >= self.total_CFs:
      cfs_df = cfs_df[cfs_df['validity']==1].sample(n=self.total_CFs, random_state=random_seed)
      self.valid_cfs_found = True
  else:
      cfs_df = cfs_df[cfs_df['validity']==1]
      self.valid_cfs_found = False
  \<close>
  A row is the encoded sample with its prediction. \<^verbatim>\<open>DataFrame.sample(n)\<close> draws n rows
  without replacement: the positions it draws are the input \<open>chosen\<close> (distinct, in
  range, n of them); it raises ValueError for a negative n or an n above the number of
  rows. The message is what the method prints at its end.
\<close>

definition sample_positions :: "nat list \<Rightarrow> int \<Rightarrow> nat \<Rightarrow> bool" where
  "sample_positions chosen n len =
     (int (length chosen) = n \<and> distinct chosen \<and> list_all (\<lambda>i. i < len) chosen)"

definition df_sample :: "nat list \<Rightarrow> int \<Rightarrow> 'a list \<Rightarrow> py_error + 'a list" where
  "df_sample chosen n rows =
     (if n < 0 \<or> int (length rows) < n then Inl ValueError
      else Inr (map (\<lambda>i. rows ! i) chosen))"

datatype message = DiverseFound | OnlyFound int int

record sampling_outcome =
  final_cfs :: "real list list"
  cfs_preds :: "real list"
  valid_cfs_found :: bool
  total_cfs_found :: int
  printed :: "message option"

definition valid_rows :: "explainer \<Rightarrow> (real list \<times> real) list \<Rightarrow> (real list \<times> real) list" where
  "valid_rows self cfs_df =
     filter (\<lambda>row. is_valid (target_cf_class self) (stopping_threshold self) (snd row)) cfs_df"

definition select_counterfactuals ::
  "explainer \<Rightarrow> bool \<Rightarrow> nat list \<Rightarrow> (real list \<times> real) list \<Rightarrow> py_error + sampling_outcome" where
  "select_counterfactuals self verbose chosen cfs_df =
     (let found = int (length (valid_rows self cfs_df)) in
      if found \<ge> total_CFs self then
        (case df_sample chosen (total_CFs self) (valid_rows self cfs_df) of
           Inl e \<Rightarrow> Inl e
         | Inr rows \<Rightarrow>
             Inr \<lparr> final_cfs = map fst rows, cfs_preds = map snd rows,
                   valid_cfs_found = True, total_cfs_found = found,
                   printed = (if verbose then Some DiverseFound else None) \<rparr>)
      else
        Inr \<lparr> final_cfs = map fst (valid_rows self cfs_df),
              cfs_preds = map snd (valid_rows self cfs_df),
              valid_cfs_found = False, total_cfs_found = found,
              printed = Some (OnlyFound found (total_CFs self)) \<rparr>)"






section \<open>The heap of arrays and lists\<close>

text \<open>
  The refiner mutates NumPy arrays in place through lists that hold references to them,
  so its objects live in an explicit store. An address holds an array (its entries) or
  a Python list (the addresses of its elements); every address below \<open>fresh\<close> is
  allocated, and a new object is placed at \<open>fresh\<close>.
\<close>

datatype obj = Arr "real list" | Lst "nat list"

record heap =
  store :: "nat \<Rightarrow> obj"
  fresh :: nat

definition alloc :: "heap \<Rightarrow> obj \<Rightarrow> heap \<times> nat" where
  "alloc h x = (h\<lparr>store := (store h)(fresh h := x), fresh := Suc (fresh h)\<rparr>, fresh h)"

text \<open>
  The result of a computation that loops: it returns, raises, or has not finished
  within the given number of loop iterations.
\<close>

datatype 'a outcome = OutOfFuel | Raise py_error | Return 'a

fun and_then :: "'a outcome \<Rightarrow> ('a \<Rightarrow> 'b outcome) \<Rightarrow> 'b outcome" where
  "and_then OutOfFuel f = OutOfFuel"
| "and_then (Raise e) f = Raise e"
| "and_then (Return x) f = f x"

lemma and_then_cong [fundef_cong]:
  "m = m' \<Longrightarrow> (\<And>x. m' = Return x \<Longrightarrow> f x = f' x) \<Longrightarrow> and_then m f = and_then m' f'"
  by (cases m') simp_all

definition list_len :: "heap \<Rightarrow> nat \<Rightarrow> nat outcome" where
  "list_len h l = (case store h l of Lst as \<Rightarrow> Return (length as) | Arr v \<Rightarrow> Raise TypeError)"

definition list_get :: "heap \<Rightarrow> indexed \<Rightarrow> nat \<Rightarrow> nat \<Rightarrow> nat outcome" where
  "list_get h tag l i =
     (case store h l of
        Lst as \<Rightarrow> if i < length as then Return (as ! i) else Raise (IndexError tag)
      | Arr v \<Rightarrow> Raise TypeError)"

definition list_set :: "heap \<Rightarrow> indexed \<Rightarrow> nat \<Rightarrow> nat \<Rightarrow> nat \<Rightarrow> heap outcome" where
  "list_set h tag l i a =
     (case store h l of
        Lst as \<Rightarrow> if i < length as then Return (h\<lparr>store := (store h)(l := Lst (as[i := a]))\<rparr>)
                  else Raise (IndexError tag)
      | Arr v \<Rightarrow> Raise TypeError)"

definition arr_get :: "heap \<Rightarrow> nat \<Rightarrow> nat \<Rightarrow> real outcome" where
  "arr_get h a i =
     (case store h a of
        Arr v \<Rightarrow> if i < length v then Return (v ! i) else Raise (IndexError FeatureVector)
      | Lst as \<Rightarrow> Raise TypeError)"

definition arr_set :: "heap \<Rightarrow> nat \<Rightarrow> nat \<Rightarrow> real \<Rightarrow> heap outcome" where
  "arr_set h a i x =
     (case store h a of
        Arr v \<Rightarrow> if i < length v then Return (h\<lparr>store := (store h)(a := Arr (v[i := x]))\<rparr>)
                 else Raise (IndexError FeatureVector)
      | Lst as \<Rightarrow> Raise TypeError)"

text \<open>
  \<^verbatim>\<open>final_cfs_sparse[cf_ix].ravel()[feat_ix]\<close> read and written, and
  \<^verbatim>\<open>self.predict_fn(final_cfs_sparse[cf_ix])\<close>.
\<close>

definition cf_get :: "heap \<Rightarrow> nat \<Rightarrow> nat \<Rightarrow> nat \<Rightarrow> real outcome" where
  "cf_get h l cf_ix feat_ix = and_then (list_get h CfList l cf_ix) (\<lambda>a. arr_get h a feat_ix)"

definition cf_set :: "heap \<Rightarrow> nat \<Rightarrow> nat \<Rightarrow> nat \<Rightarrow> real \<Rightarrow> heap outcome" where
  "cf_set h l cf_ix feat_ix x =
     and_then (list_get h CfList l cf_ix) (\<lambda>a. arr_set h a feat_ix x)"

definition predict_at :: "explainer \<Rightarrow> heap \<Rightarrow> nat \<Rightarrow> real outcome" where
  "predict_at self h a =
     (case store h a of Arr v \<Rightarrow> Return (predict_fn self v) | Lst as \<Rightarrow> Raise TypeError)"

definition cf_predict :: "explainer \<Rightarrow> heap \<Rightarrow> nat \<Rightarrow> nat \<Rightarrow> real outcome" where
  "cf_predict self h l cf_ix = and_then (list_get h CfList l cf_ix) (predict_at self h)"

definition seq_get :: "indexed \<Rightarrow> 'a list \<Rightarrow> nat \<Rightarrow> 'a outcome" where
  "seq_get tag xs i = (if i < length xs then Return (xs ! i) else Raise (IndexError tag))"

section \<open>Sparsity refiner\<close>

text \<open>
  The two strict tests the refiner makes on a prediction (explainer_base.py, lines
  407-408 and 414): strictly on the desired side of the threshold, and strictly on the
  other side.
\<close>

definition strictly_valid :: "explainer \<Rightarrow> real \<Rightarrow> bool" where
  "strictly_valid self pred =
     ((target_cf_class self = 0 \<and> pred < stopping_threshold self) \<or>
      (target_cf_class self = 1 \<and> pred > stopping_threshold self))"

definition strictly_invalid :: "explainer \<Rightarrow> real \<Rightarrow> bool" where
  "strictly_invalid self pred =
     ((target_cf_class self = 0 \<and> pred > stopping_threshold self) \<or>
      (target_cf_class self = 1 \<and> pred < stopping_threshold self))"

text \<open>
  \<^verbatim>\<open>do_linear_search\<close> (lines 401-421). The loop of the source is \<open>linear_loop\<close>; the
  step \<^verbatim>\<open>change\<close> divides by the width of the feature's range. For a range of width 0
  this raises ZeroDivisionError when the bounds are Python floats; when they are NumPy
  scalars the quotient is \<^verbatim>\<open>inf\<close>, a value that the real numbers of the model do not have.
  The model returns the error in both cases.
\<close>

fun linear_loop ::
  "nat \<Rightarrow> explainer \<Rightarrow> heap \<Rightarrow> nat \<Rightarrow> nat \<Rightarrow> nat \<Rightarrow> nat \<Rightarrow> real \<Rightarrow> real \<Rightarrow> real \<Rightarrow> real
     \<Rightarrow> (heap \<times> nat) outcome" where
  "linear_loop 0 self h query_instance final_cfs_sparse cf_ix feat_ix change diff old_diff
     current_pred = OutOfFuel"
| "linear_loop (Suc fuel) self h query_instance final_cfs_sparse cf_ix feat_ix change diff
     old_diff current_pred =
     (if \<bar>diff\<bar> > 0.001 \<and> sgn (diff * old_diff) > 0 \<and> strictly_valid self current_pred then
        and_then (cf_get h final_cfs_sparse cf_ix feat_ix) (\<lambda>old_val.
        and_then (cf_set h final_cfs_sparse cf_ix feat_ix (old_val + sgn diff * change)) (\<lambda>h1.
        and_then (cf_predict self h1 final_cfs_sparse cf_ix) (\<lambda>pred.
          if strictly_invalid self pred then
            and_then (cf_set h1 final_cfs_sparse cf_ix feat_ix old_val) (\<lambda>h2.
            and_then (arr_get h2 query_instance feat_ix) (\<lambda>qv.
            and_then (cf_get h2 final_cfs_sparse cf_ix feat_ix) (\<lambda>cv.
            and_then (list_get h2 CfList final_cfs_sparse cf_ix) (\<lambda>a. Return (h2, a)))))
          else
            and_then (arr_get h1 query_instance feat_ix) (\<lambda>qv.
            and_then (cf_get h1 final_cfs_sparse cf_ix feat_ix) (\<lambda>cv.
              linear_loop fuel self h1 query_instance final_cfs_sparse cf_ix feat_ix change
                (qv - cv) diff pred)))))
      else and_then (list_get h CfList final_cfs_sparse cf_ix) (\<lambda>a. Return (h, a)))"

definition do_linear_search ::
  "nat \<Rightarrow> explainer \<Rightarrow> heap \<Rightarrow> real \<Rightarrow> nat list \<Rightarrow> nat \<Rightarrow> nat \<Rightarrow> nat \<Rightarrow> nat \<Rightarrow> real
     \<Rightarrow> (heap \<times> nat) outcome" where
  "do_linear_search fuel self h diff decimal_prec query_instance cf_ix feat_ix
     final_cfs_sparse current_pred =
     and_then (seq_get DecimalPrec decimal_prec feat_ix) (\<lambda>p.
     and_then (seq_get ContRange (cont_maxx self) feat_ix) (\<lambda>hi.
     and_then (seq_get ContRange (cont_minx self) feat_ix) (\<lambda>lo.
       if hi - lo = 0 then Raise ZeroDivisionError
       else linear_loop fuel self h query_instance final_cfs_sparse cf_ix feat_ix
              ((1 / 10 ^ p) / (hi - lo)) diff diff current_pred)))"

text \<open>
  \<^verbatim>\<open>do_binary_search\<close> (lines 423-475). \<open>binary_up\<close> is the loop of the branch
  \<^verbatim>\<open>diff > 0\<close> (lines 441-454), \<open>binary_down\<close> the loop of the other branch (lines
  460-473); \<^verbatim>\<open>break\<close> leaves the loop with the value just written.
\<close>

fun binary_up ::
  "nat \<Rightarrow> explainer \<Rightarrow> heap \<Rightarrow> nat list \<Rightarrow> nat \<Rightarrow> nat \<Rightarrow> nat \<Rightarrow> real \<Rightarrow> real \<Rightarrow> heap outcome" where
  "binary_up 0 self h decimal_prec final_cfs_sparse cf_ix feat_ix left right = OutOfFuel"
| "binary_up (Suc fuel) self h decimal_prec final_cfs_sparse cf_ix feat_ix left right =
     (if left \<le> right then
        and_then (seq_get DecimalPrec decimal_prec feat_ix) (\<lambda>p.
        and_then (cf_set h final_cfs_sparse cf_ix feat_ix
                    (py_round_nd (left + (right - left) / 2) p)) (\<lambda>h1.
        and_then (cf_predict self h1 final_cfs_sparse cf_ix) (\<lambda>current_pred.
          if py_round_nd (left + (right - left) / 2) p = right
             \<or> py_round_nd (left + (right - left) / 2) p = left then Return h1
          else if strictly_valid self current_pred then
            binary_up fuel self h1 decimal_prec final_cfs_sparse cf_ix feat_ix
              (py_round_nd (left + (right - left) / 2) p + 1 / 10 ^ p) right
          else
            binary_up fuel self h1 decimal_prec final_cfs_sparse cf_ix feat_ix
              left (py_round_nd (left + (right - left) / 2) p - 1 / 10 ^ p))))
      else Return h)"

fun binary_down ::
  "nat \<Rightarrow> explainer \<Rightarrow> heap \<Rightarrow> nat list \<Rightarrow> nat \<Rightarrow> nat \<Rightarrow> nat \<Rightarrow> real \<Rightarrow> real \<Rightarrow> heap outcome" where
  "binary_down 0 self h decimal_prec final_cfs_sparse cf_ix feat_ix left right = OutOfFuel"
| "binary_down (Suc fuel) self h decimal_prec final_cfs_sparse cf_ix feat_ix left right =
     (if right \<ge> left then
        and_then (seq_get DecimalPrec decimal_prec feat_ix) (\<lambda>p.
        and_then (cf_set h final_cfs_sparse cf_ix feat_ix
                    (py_round_nd (right - (right - left) / 2) p)) (\<lambda>h1.
        and_then (cf_predict self h1 final_cfs_sparse cf_ix) (\<lambda>current_pred.
          if py_round_nd (right - (right - left) / 2) p = right
             \<or> py_round_nd (right - (right - left) / 2) p = left then Return h1
          else if strictly_valid self current_pred then
            binary_down fuel self h1 decimal_prec final_cfs_sparse cf_ix feat_ix
              left (py_round_nd (right - (right - left) / 2) p - 1 / 10 ^ p)
          else
            binary_down fuel self h1 decimal_prec final_cfs_sparse cf_ix feat_ix
              (py_round_nd (right - (right - left) / 2) p + 1 / 10 ^ p) right)))
      else Return h)"

definition do_binary_search ::
  "nat \<Rightarrow> explainer \<Rightarrow> heap \<Rightarrow> real \<Rightarrow> nat list \<Rightarrow> nat \<Rightarrow> nat \<Rightarrow> nat \<Rightarrow> nat \<Rightarrow> real
     \<Rightarrow> (heap \<times> nat) outcome" where
  "do_binary_search fuel self h diff decimal_prec query_instance cf_ix feat_ix
     final_cfs_sparse current_pred =
     and_then (cf_get h final_cfs_sparse cf_ix feat_ix) (\<lambda>old_val.
     and_then (arr_get h query_instance feat_ix) (\<lambda>qv.
     and_then (cf_set h final_cfs_sparse cf_ix feat_ix qv) (\<lambda>h1.
     and_then (cf_predict self h1 final_cfs_sparse cf_ix) (\<lambda>pred.
       if strictly_valid self pred then
         and_then (list_get h1 CfList final_cfs_sparse cf_ix) (\<lambda>a. Return (h1, a))
       else
         and_then (cf_set h1 final_cfs_sparse cf_ix feat_ix old_val) (\<lambda>h2.
         and_then
           (if diff > 0 then
              and_then (cf_get h2 final_cfs_sparse cf_ix feat_ix) (\<lambda>left.
              and_then (arr_get h2 query_instance feat_ix) (\<lambda>right.
                binary_up fuel self h2 decimal_prec final_cfs_sparse cf_ix feat_ix left right))
            else
              and_then (arr_get h2 query_instance feat_ix) (\<lambda>left.
              and_then (cf_get h2 final_cfs_sparse cf_ix feat_ix) (\<lambda>right.
                binary_down fuel self h2 decimal_prec final_cfs_sparse cf_ix feat_ix left right)))
           (\<lambda>h3. and_then (list_get h3 CfList final_cfs_sparse cf_ix) (\<lambda>a. Return (h3, a))))))))"

text \<open>
  \<^verbatim>\<open>do_posthoc_sparsity_enhancement\<close> (lines 208-250). The tolerance of a feature is
  its quantile capped by its median absolute deviation (a missing key raises KeyError);
  the features are visited by decreasing tolerance, in the stable order of
  \<^verbatim>\<open>sorted(..., reverse=True)\<close>. \<^verbatim>\<open>encoded_feature_names.index\<close> raises ValueError for a
  name that is not in the list.
\<close>

fun cap_quantiles :: "(string \<times> real) list \<Rightarrow> (string \<times> real) list
    \<Rightarrow> (string \<times> real) list outcome" where
  "cap_quantiles [] mads = Return []"
| "cap_quantiles ((feature, v) # rest) mads =
     (case map_of mads feature of
        None \<Rightarrow> Raise KeyError
      | Some m \<Rightarrow> and_then (cap_quantiles rest mads) (\<lambda>capped. Return ((feature, min v m) # capped)))"

definition features_sorted :: "(string \<times> real) list \<Rightarrow> (string \<times> real) list" where
  "features_sorted quantiles = sort_key (\<lambda>kv. - snd kv) quantiles"

fun index_of :: "'a list \<Rightarrow> 'a \<Rightarrow> nat outcome" where
  "index_of [] x = Raise ValueError"
| "index_of (y # ys) x =
     (if y = x then Return 0 else and_then (index_of ys x) (\<lambda>i. Return (Suc i)))"

text \<open>The loop over the features of one counterfactual (lines 236-246).\<close>

fun refine_features ::
  "nat \<Rightarrow> explainer \<Rightarrow> string \<Rightarrow> nat list \<Rightarrow> heap \<Rightarrow> nat \<Rightarrow> nat \<Rightarrow> nat
     \<Rightarrow> (string \<times> real) list \<Rightarrow> heap outcome" where
  "refine_features fuel self posthoc_sparsity_algorithm decimal_prec h query_instance
     final_cfs_sparse cf_ix [] = Return h"
| "refine_features fuel self posthoc_sparsity_algorithm decimal_prec h query_instance
     final_cfs_sparse cf_ix ((feature, tolerance) # rest) =
     and_then (cf_predict self h final_cfs_sparse cf_ix) (\<lambda>current_pred.
     and_then (index_of (encoded_feature_names (data_interface self)) feature) (\<lambda>feat_ix.
     and_then (arr_get h query_instance feat_ix) (\<lambda>qv.
     and_then (cf_get h final_cfs_sparse cf_ix feat_ix) (\<lambda>cv.
     and_then
       (if \<bar>qv - cv\<bar> \<le> tolerance then
          (if posthoc_sparsity_algorithm = ''linear'' then
             and_then (do_linear_search fuel self h (qv - cv) decimal_prec query_instance
                         cf_ix feat_ix final_cfs_sparse current_pred) (\<lambda>(h1, a).
               list_set h1 CfList final_cfs_sparse cf_ix a)
           else if posthoc_sparsity_algorithm = ''binary'' then
             and_then (do_binary_search fuel self h (qv - cv) decimal_prec query_instance
                         cf_ix feat_ix final_cfs_sparse current_pred) (\<lambda>(h1, a).
               list_set h1 CfList final_cfs_sparse cf_ix a)
           else Return h)
        else Return h)
       (\<lambda>h2. refine_features fuel self posthoc_sparsity_algorithm decimal_prec h2
                query_instance final_cfs_sparse cf_ix rest)))))"

text \<open>
  The loop over the members (lines 230-248). A member whose prediction is strictly on
  the wrong side is skipped; after the features of a member its prediction is stored, a
  new array, in \<^verbatim>\<open>cfs_preds_sparse[cf_ix]\<close>.
\<close>

fun refine_members ::
  "nat \<Rightarrow> explainer \<Rightarrow> string \<Rightarrow> nat list \<Rightarrow> (string \<times> real) list \<Rightarrow> heap \<Rightarrow> nat \<Rightarrow> nat
     \<Rightarrow> nat \<Rightarrow> nat list \<Rightarrow> heap outcome" where
  "refine_members fuel self posthoc_sparsity_algorithm decimal_prec feats h query_instance
     final_cfs_sparse cfs_preds_sparse [] = Return h"
| "refine_members fuel self posthoc_sparsity_algorithm decimal_prec feats h query_instance
     final_cfs_sparse cfs_preds_sparse (cf_ix # rest) =
     and_then (cf_predict self h final_cfs_sparse cf_ix) (\<lambda>current_pred.
     and_then
       (if strictly_invalid self current_pred then Return h
        else
          and_then (refine_features fuel self posthoc_sparsity_algorithm decimal_prec h
                      query_instance final_cfs_sparse cf_ix feats) (\<lambda>h1.
          and_then (cf_predict self h1 final_cfs_sparse cf_ix) (\<lambda>pred.
            list_set (fst (alloc h1 (Arr [pred]))) PredList cfs_preds_sparse cf_ix
              (snd (alloc h1 (Arr [pred]))))))
       (\<lambda>h2. refine_members fuel self posthoc_sparsity_algorithm decimal_prec feats h2
                query_instance final_cfs_sparse cfs_preds_sparse rest))"

text \<open>
  The indices of the member loop:
  \<^verbatim>\<open>range(min(max(loop_find_CFs, self.total_CFs), len(final_cfs_sparse)))\<close> with
  \<^verbatim>\<open>loop_find_CFs = self.total_random_inits if self.total_random_inits > 0 else 1\<close>.
\<close>

definition loop_find_CFs :: "explainer \<Rightarrow> int" where
  "loop_find_CFs self = (if total_random_inits self > 0 then total_random_inits self else 1)"

definition member_indices :: "explainer \<Rightarrow> nat \<Rightarrow> nat list" where
  "member_indices self len =
     [0..<nat (min (max (loop_find_CFs self) (total_CFs self)) (int len))]"

definition do_posthoc_sparsity_enhancement ::
  "nat \<Rightarrow> explainer \<Rightarrow> heap \<Rightarrow> nat \<Rightarrow> nat \<Rightarrow> nat \<Rightarrow> string \<Rightarrow> (heap \<times> nat \<times> nat) outcome" where
  "do_posthoc_sparsity_enhancement fuel self h final_cfs_sparse cfs_preds_sparse
     query_instance posthoc_sparsity_algorithm =
     and_then (cap_quantiles (normalized_quantiles (data_interface self))
                 (normalized_mads (data_interface self))) (\<lambda>quantiles.
     and_then (list_len h final_cfs_sparse) (\<lambda>len.
     and_then
       (refine_members fuel self posthoc_sparsity_algorithm
          (take (length (encoded_continuous_feature_indexes self))
             (decimal_precisions (data_interface self)))
          (features_sorted quantiles) h query_instance final_cfs_sparse cfs_preds_sparse
          (member_indices self len))
       (\<lambda>h'. Return (h', final_cfs_sparse, cfs_preds_sparse))))"

text \<open>
  \<^verbatim>\<open>copy.deepcopy\<close> of a list of arrays: a new list of new arrays. An array that occurs
  twice in the list is copied once (the memo of \<^verbatim>\<open>deepcopy\<close>), so the copy shares
  exactly where the original does. The lists the program copies hold arrays only.
\<close>

fun deepcopy_arrays :: "heap \<Rightarrow> (nat \<times> nat) list \<Rightarrow> nat list \<Rightarrow> (heap \<times> nat list) outcome" where
  "deepcopy_arrays h memo [] = Return (h, [])"
| "deepcopy_arrays h memo (a # as) =
     (case map_of memo a of
        Some b \<Rightarrow> and_then (deepcopy_arrays h memo as) (\<lambda>(h', bs). Return (h', b # bs))
      | None \<Rightarrow>
          (case store h a of
             Arr v \<Rightarrow>
               and_then (deepcopy_arrays (fst (alloc h (Arr v))) ((a, snd (alloc h (Arr v))) # memo) as)
                 (\<lambda>(h', bs). Return (h', snd (alloc h (Arr v)) # bs))
           | Lst xs \<Rightarrow> Raise TypeError))"

definition deepcopy :: "heap \<Rightarrow> nat \<Rightarrow> (heap \<times> nat) outcome" where
  "deepcopy h l =
     (case store h l of
        Lst as \<Rightarrow> and_then (deepcopy_arrays h [] as) (\<lambda>(h', bs). Return (alloc h' (Lst bs)))
      | Arr v \<Rightarrow> Return (alloc h (Arr v)))"

text \<open>
  The end of both searches (dice_genetic.py, lines 264-271; explainer_base.py, lines
  146-153): when the post-hoc parameter is positive and the data interface holds the
  data frame, the final set and its predictions are copied and the refiner works on the
  copies; otherwise nothing is refined.
\<close>

definition refine_copy ::
  "nat \<Rightarrow> explainer \<Rightarrow> heap \<Rightarrow> nat \<Rightarrow> nat \<Rightarrow> nat \<Rightarrow> string \<Rightarrow> (heap \<times> nat \<times> nat) outcome" where
  "refine_copy fuel self h final_cfs_at cfs_preds_at query_instance posthoc_sparsity_algorithm =
     and_then (deepcopy h final_cfs_at) (\<lambda>(h1, final_cfs_sparse).
     and_then (deepcopy h1 cfs_preds_at) (\<lambda>(h2, cfs_preds_sparse).
       do_posthoc_sparsity_enhancement fuel self h2 final_cfs_sparse cfs_preds_sparse
         query_instance posthoc_sparsity_algorithm))"

subsection \<open>What the refiner may touch\<close>

text \<open>
  A Hoare-style predicate: the computation does not raise an IndexError on the list of
  counterfactuals, and where it returns, the result satisfies \<open>Q\<close>.
\<close>

definition ensures :: "'a outcome \<Rightarrow> ('a \<Rightarrow> bool) \<Rightarrow> bool" where
  "ensures m Q =
     (case m of OutOfFuel \<Rightarrow> True | Raise e \<Rightarrow> e \<noteq> IndexError CfList | Return x \<Rightarrow> Q x)"

lemma ensures_simps [simp]:
  "ensures OutOfFuel Q" "ensures (Raise e) Q = (e \<noteq> IndexError CfList)"
  "ensures (Return x) Q = Q x"
  by (simp_all add: ensures_def)

lemma ensures_bind:
  "ensures m P \<Longrightarrow> (\<And>x. P x \<Longrightarrow> ensures (f x) Q) \<Longrightarrow> ensures (and_then m f) Q"
  by (cases m) simp_all

lemma ensures_mono: "ensures m P \<Longrightarrow> (\<And>x. P x \<Longrightarrow> Q x) \<Longrightarrow> ensures m Q"
  by (cases m) simp_all

lemma ensures_Return: "ensures m Q \<Longrightarrow> m = Return x \<Longrightarrow> Q x"
  by simp

definition same_shape :: "obj \<Rightarrow> obj \<Rightarrow> bool" where
  "same_shape x y =
     (case x of
        Arr v \<Rightarrow> (case y of Arr w \<Rightarrow> length v = length w | Lst b \<Rightarrow> False)
      | Lst a \<Rightarrow> (case y of Arr w \<Rightarrow> False | Lst b \<Rightarrow> length a = length b))"

definition above :: "nat \<Rightarrow> nat \<Rightarrow> heap \<Rightarrow> bool" where
  "above B l h = (case store h l of Lst as \<Rightarrow> list_all (\<lambda>a. B \<le> a) as | Arr v \<Rightarrow> True)"

definition in_range :: "nat \<Rightarrow> nat \<Rightarrow> heap \<Rightarrow> bool" where
  "in_range l i h = (case store h l of Lst as \<Rightarrow> i < length as | Arr v \<Rightarrow> True)"

definition good :: "nat \<Rightarrow> nat \<Rightarrow> nat \<Rightarrow> heap \<Rightarrow> heap \<Rightarrow> bool" where
  "good B l pl h h' =
     (fresh h \<le> fresh h' \<and> (\<forall>a<B. store h' a = store h a) \<and>
      (\<forall>a<fresh h. same_shape (store h a) (store h' a)) \<and> above B l h' \<and> above B pl h')"

definition pre :: "nat \<Rightarrow> nat \<Rightarrow> nat \<Rightarrow> heap \<Rightarrow> bool" where
  "pre B l pl h = (B \<le> l \<and> B \<le> pl \<and> l < fresh h \<and> above B l h \<and> above B pl h)"

lemma same_shape_refl [simp]: "same_shape x x"
  by (simp add: same_shape_def split: obj.splits)

lemma same_shape_trans: "same_shape x y \<Longrightarrow> same_shape y z \<Longrightarrow> same_shape x z"
  by (simp add: same_shape_def split: obj.splits)

lemma good_refl: "pre B l pl h \<Longrightarrow> good B l pl h h"
  by (simp add: good_def pre_def)

lemma good_trans:
  assumes "good B l pl h h1" "good B l pl h1 h2"
  shows "good B l pl h h2"
proof -
  have "same_shape (store h a) (store h2 a)" if "a < fresh h" for a
  proof -
    have "same_shape (store h a) (store h1 a)" "same_shape (store h1 a) (store h2 a)"
      using assms that by (simp_all add: good_def)
    then show ?thesis by (rule same_shape_trans)
  qed
  then show ?thesis
    using assms by (simp add: good_def)
qed

lemma good_pre: "pre B l pl h \<Longrightarrow> good B l pl h h' \<Longrightarrow> pre B l pl h'"
  by (auto simp: good_def pre_def)

lemma good_in_range:
  "l < fresh h \<Longrightarrow> in_range l i h \<Longrightarrow> good B l pl h h' \<Longrightarrow> in_range l i h'"
  by (auto simp: good_def in_range_def same_shape_def split: obj.splits)

definition elem_of :: "heap \<Rightarrow> nat \<Rightarrow> nat \<Rightarrow> nat \<Rightarrow> bool" where
  "elem_of h l i a = (case store h l of Lst as \<Rightarrow> i < length as \<and> a = as ! i | Arr v \<Rightarrow> False)"

lemma list_get_safe:
  "in_range l i h \<Longrightarrow> ensures (list_get h CfList l i) (elem_of h l i)"
  by (auto simp: list_get_def in_range_def elem_of_def split: obj.splits)

lemma same_shape_Arr [simp]: "same_shape (Arr v) (Arr w) = (length v = length w)"
  by (simp add: same_shape_def)

lemma same_shape_Lst [simp]: "same_shape (Lst a) (Lst b) = (length a = length b)"
  by (simp add: same_shape_def)

lemma arr_get_safe: "ensures (arr_get h a i) (\<lambda>x. True)"
  by (simp add: arr_get_def split: obj.splits)

lemma predict_at_safe: "ensures (predict_at self h a) (\<lambda>x. True)"
  by (simp add: predict_at_def split: obj.splits)

lemma cf_get_safe: "in_range l i h \<Longrightarrow> ensures (cf_get h l i j) (\<lambda>x. True)"
  unfolding cf_get_def
  by (rule ensures_bind [OF list_get_safe]) (simp_all add: arr_get_safe)

lemma cf_predict_safe: "in_range l i h \<Longrightarrow> ensures (cf_predict self h l i) (\<lambda>x. True)"
  unfolding cf_predict_def
  by (rule ensures_bind [OF list_get_safe]) (simp_all add: predict_at_safe)

lemma seq_get_safe: "tag \<noteq> CfList \<Longrightarrow> ensures (seq_get tag xs i) (\<lambda>x. True)"
  by (simp add: seq_get_def)

lemma arr_set_good:
  assumes "pre B l pl h" "B \<le> a"
  shows "ensures (arr_set h a i x) (good B l pl h)"
proof (cases "store h a")
  case (Lst as)
  then show ?thesis by (simp add: arr_set_def)
next
  case (Arr v)
  show ?thesis
  proof (cases "i < length v")
    case False
    then show ?thesis using Arr by (simp add: arr_set_def)
  next
    case True
    let ?h = "h\<lparr>store := (store h)(a := Arr (v[i := x]))\<rparr>"
    have "above B l ?h" "above B pl ?h"
      using assms(1) Arr by (auto simp: pre_def above_def split: obj.splits)
    moreover have "\<forall>b<B. store ?h b = store h b"
      using assms(2) by simp
    moreover have "\<forall>b<fresh h. same_shape (store h b) (store ?h b)"
      using Arr by simp
    ultimately have "good B l pl h ?h"
      by (simp add: good_def)
    then show ?thesis
      using Arr True by (simp add: arr_set_def)
  qed
qed

lemma cf_set_good:
  assumes "pre B l pl h" "in_range l cf_ix h"
  shows "ensures (cf_set h l cf_ix feat_ix x) (good B l pl h)"
  unfolding cf_set_def
proof (rule ensures_bind [OF list_get_safe [OF assms(2)]])
  fix a
  assume "elem_of h l cf_ix a"
  then have "B \<le> a"
    using assms(1) by (auto simp: elem_of_def pre_def above_def list_all_length split: obj.splits)
  then show "ensures (arr_set h a feat_ix x) (good B l pl h)"
    by (rule arr_set_good [OF assms(1)])
qed

lemma list_get_above:
  assumes "pre B l pl h" "in_range l cf_ix h"
  shows "ensures (list_get h CfList l cf_ix) (\<lambda>a. B \<le> a)"
  by (rule ensures_mono [OF list_get_safe [OF assms(2)]])
     (use assms(1) in \<open>auto simp: elem_of_def pre_def above_def list_all_length split: obj.splits\<close>)

lemma list_set_good:
  assumes "pre B l pl h" "B \<le> a" "B \<le> t" "tag = CfList \<longrightarrow> in_range t i h"
  shows "ensures (list_set h tag t i a) (good B l pl h)"
proof (cases "store h t")
  case (Arr v)
  then show ?thesis by (simp add: list_set_def)
next
  case (Lst as)
  show ?thesis
  proof (cases "i < length as")
    case False
    then show ?thesis using Lst assms(4) by (auto simp: list_set_def in_range_def)
  next
    case True
    let ?h = "h\<lparr>store := (store h)(t := Lst (as[i := a]))\<rparr>"
    have u: "list_all (\<lambda>a. B \<le> a) (as[i := a])" if "list_all (\<lambda>a. B \<le> a) as"
      using that assms(2) by (auto simp: list_all_iff dest: set_update_subset_insert [THEN subsetD])
    have "above B l ?h" "above B pl ?h"
      using assms(1) Lst u by (auto simp: pre_def above_def split: obj.splits)
    moreover have "\<forall>b<B. store ?h b = store h b"
      using assms(3) by simp
    moreover have "\<forall>b<fresh h. same_shape (store h b) (store ?h b)"
      using Lst by simp
    ultimately have "good B l pl h ?h"
      by (simp add: good_def)
    then show ?thesis
      using Lst True by (simp add: list_set_def)
  qed
qed

lemma alloc_good:
  assumes "pre B l pl h"
  shows "good B l pl h (fst (alloc h (Arr v))) \<and> B \<le> snd (alloc h (Arr v))"
  using assms by (auto simp: alloc_def good_def pre_def above_def split: obj.splits)


lemma elem_above: "pre B l pl h \<Longrightarrow> elem_of h l i a \<Longrightarrow> B \<le> a"
  by (auto simp: elem_of_def pre_def above_def list_all_length split: obj.splits)


lemma ensures_if:
  "(c \<Longrightarrow> ensures a Q) \<Longrightarrow> (\<not> c \<Longrightarrow> ensures b Q) \<Longrightarrow> ensures (if c then a else b) Q"
  by simp

text \<open>
  The facts a loop carries: the bound \<open>B\<close> is below both lists, the list of
  counterfactuals was allocated and indexed in range at the start \<open>h0\<close>, and the
  present heap is a good successor of \<open>h0\<close>.
\<close>

definition ok :: "nat \<Rightarrow> nat \<Rightarrow> nat \<Rightarrow> nat \<Rightarrow> heap \<Rightarrow> heap \<Rightarrow> bool" where
  "ok B l pl cf_ix h0 h = (pre B l pl h0 \<and> in_range l cf_ix h0 \<and> good B l pl h0 h)"

lemma ok_pre: "ok B l pl cf_ix h0 h \<Longrightarrow> pre B l pl h"
  unfolding ok_def using good_pre by blast

lemma ok_range: "ok B l pl cf_ix h0 h \<Longrightarrow> in_range l cf_ix h"
  unfolding ok_def pre_def using good_in_range by blast

lemma ok_step: "ok B l pl cf_ix h0 h \<Longrightarrow> good B l pl h h1 \<Longrightarrow> ok B l pl cf_ix h0 h1"
  unfolding ok_def using good_trans by blast

lemma ok_start: "pre B l pl h \<Longrightarrow> in_range l cf_ix h \<Longrightarrow> ok B l pl cf_ix h h"
  unfolding ok_def using good_refl by blast

lemma cf_get_ok: "ok B l pl cf_ix h0 h \<Longrightarrow> ensures (cf_get h l cf_ix j) (\<lambda>x. True)"
  by (rule cf_get_safe [OF ok_range])

lemma cf_predict_ok: "ok B l pl cf_ix h0 h \<Longrightarrow> ensures (cf_predict self h l cf_ix) (\<lambda>x. True)"
  by (rule cf_predict_safe [OF ok_range])

lemma cf_set_ok:
  assumes "ok B l pl cf_ix h0 h"
  shows "ensures (cf_set h l cf_ix j x) (ok B l pl cf_ix h0)"
  by (rule ensures_mono [OF cf_set_good [OF ok_pre [OF assms] ok_range [OF assms]]])
     (rule ok_step [OF assms])

lemma return_ok:
  assumes "ok B l pl cf_ix h0 h"
  shows "ensures (and_then (list_get h CfList l cf_ix) (\<lambda>a. Return (h, a)))
           (\<lambda>r. ok B l pl cf_ix h0 (fst r) \<and> B \<le> snd r)"
proof (rule ensures_bind [OF list_get_safe [OF ok_range [OF assms]]])
  fix a
  assume "elem_of h l cf_ix a"
  then have "B \<le> a"
    using ok_pre [OF assms] elem_above by blast
  then show "ensures (Return (h, a)) (\<lambda>r. ok B l pl cf_ix h0 (fst r) \<and> B \<le> snd r)"
    using assms by simp
qed

lemma linear_loop_ok:
  "ok B l pl cf_ix h0 h \<Longrightarrow>
   ensures (linear_loop fuel self h q l cf_ix feat_ix change diff old_diff current_pred)
     (\<lambda>r. ok B l pl cf_ix h0 (fst r) \<and> B \<le> snd r)"
proof (induction fuel arbitrary: h diff old_diff current_pred)
  case 0
  show ?case by simp
next
  case (Suc fuel)
  show ?case
    apply (simp only: linear_loop.simps)
    apply (rule ensures_if)
     apply (rule ensures_bind [OF cf_get_ok [OF Suc.prems]])
     apply (rule ensures_bind [OF cf_set_ok [OF Suc.prems]])
     apply (rule ensures_bind [OF cf_predict_ok], assumption)
     apply (rule ensures_if)
      apply (rule ensures_bind [OF cf_set_ok], assumption)
      apply (rule ensures_bind [OF arr_get_safe])
      apply (rule ensures_bind [OF cf_get_ok], assumption)
      apply (rule return_ok, assumption)
     apply (rule ensures_bind [OF arr_get_safe])
     apply (rule ensures_bind [OF cf_get_ok], assumption)
     apply (rule Suc.IH, assumption)
    apply (rule return_ok [OF Suc.prems])
    done
qed

lemma do_linear_search_ok:
  "ok B l pl cf_ix h0 h \<Longrightarrow>
   ensures (do_linear_search fuel self h diff decimal_prec q cf_ix feat_ix l current_pred)
     (\<lambda>r. ok B l pl cf_ix h0 (fst r) \<and> B \<le> snd r)"
  unfolding do_linear_search_def
  apply (rule ensures_bind [OF seq_get_safe], simp)
  apply (rule ensures_bind [OF seq_get_safe], simp)
  apply (rule ensures_bind [OF seq_get_safe], simp)
  apply (rule ensures_if)
   apply simp
  apply (rule linear_loop_ok, assumption)
  done

lemma binary_up_ok:
  "ok B l pl cf_ix h0 h \<Longrightarrow>
   ensures (binary_up fuel self h decimal_prec l cf_ix feat_ix left right)
     (ok B l pl cf_ix h0)"
proof (induction fuel arbitrary: h left right)
  case 0
  show ?case by simp
next
  case (Suc fuel)
  show ?case
    apply (simp only: binary_up.simps)
    apply (rule ensures_if)
     apply (rule ensures_bind [OF seq_get_safe], simp)
     apply (rule ensures_bind [OF cf_set_ok [OF Suc.prems]])
     apply (rule ensures_bind [OF cf_predict_ok], assumption)
     apply (rule ensures_if)
      apply simp
     apply (rule ensures_if)
      apply (rule Suc.IH, assumption)
     apply (rule Suc.IH, assumption)
    apply (simp add: Suc.prems)
    done
qed

lemma binary_down_ok:
  "ok B l pl cf_ix h0 h \<Longrightarrow>
   ensures (binary_down fuel self h decimal_prec l cf_ix feat_ix left right)
     (ok B l pl cf_ix h0)"
proof (induction fuel arbitrary: h left right)
  case 0
  show ?case by simp
next
  case (Suc fuel)
  show ?case
    apply (simp only: binary_down.simps)
    apply (rule ensures_if)
     apply (rule ensures_bind [OF seq_get_safe], simp)
     apply (rule ensures_bind [OF cf_set_ok [OF Suc.prems]])
     apply (rule ensures_bind [OF cf_predict_ok], assumption)
     apply (rule ensures_if)
      apply simp
     apply (rule ensures_if)
      apply (rule Suc.IH, assumption)
     apply (rule Suc.IH, assumption)
    apply (simp add: Suc.prems)
    done
qed

lemma do_binary_search_ok:
  assumes "ok B l pl cf_ix h0 h"
  shows "ensures (do_binary_search fuel self h diff decimal_prec q cf_ix feat_ix l current_pred)
     (\<lambda>r. ok B l pl cf_ix h0 (fst r) \<and> B \<le> snd r)"
  unfolding do_binary_search_def
  apply (rule ensures_bind [OF cf_get_ok [OF assms]])
  apply (rule ensures_bind [OF arr_get_safe])
  apply (rule ensures_bind [OF cf_set_ok [OF assms]])
  apply (rule ensures_bind [OF cf_predict_ok], assumption)
  apply (rule ensures_if)
   apply (rule return_ok, assumption)
  apply (rule ensures_bind [OF cf_set_ok], assumption)
  apply (rule ensures_bind [where P = "ok B l pl cf_ix h0"])
   apply (rule ensures_if)
    apply (rule ensures_bind [OF cf_get_ok], assumption)
    apply (rule ensures_bind [OF arr_get_safe])
    apply (rule binary_up_ok, assumption)
   apply (rule ensures_bind [OF arr_get_safe])
   apply (rule ensures_bind [OF cf_get_ok], assumption)
   apply (rule binary_down_ok, assumption)
  apply (rule return_ok, assumption)
  done

lemma list_set_ok:
  assumes "ok B l pl cf_ix h0 h" "B \<le> a"
  shows "ensures (list_set h CfList l cf_ix a) (ok B l pl cf_ix h0)"
proof -
  have "B \<le> l"
    using ok_pre [OF assms(1)] by (simp add: pre_def)
  then have "ensures (list_set h CfList l cf_ix a) (good B l pl h)"
    using list_set_good [OF ok_pre [OF assms(1)] assms(2), of l CfList cf_ix]
      ok_range [OF assms(1)] by simp
  then show ?thesis
    by (rule ensures_mono) (rule ok_step [OF assms(1)])
qed

lemma store_pred_ok:
  assumes "ok B l pl cf_ix h0 h"
  shows "ensures (list_set (fst (alloc h (Arr v))) PredList pl i (snd (alloc h (Arr v))))
           (ok B l pl cf_ix h0)"
proof -
  have a: "good B l pl h (fst (alloc h (Arr v)))" "B \<le> snd (alloc h (Arr v))"
    using alloc_good [OF ok_pre [OF assms]] by simp_all
  have o: "ok B l pl cf_ix h0 (fst (alloc h (Arr v)))"
    using assms a(1) by (rule ok_step)
  have "B \<le> pl"
    using ok_pre [OF assms] by (simp add: pre_def)
  then have "ensures (list_set (fst (alloc h (Arr v))) PredList pl i (snd (alloc h (Arr v))))
           (good B l pl (fst (alloc h (Arr v))))"
    using list_set_good [OF ok_pre [OF o] a(2), of pl PredList i] by simp
  then show ?thesis
    by (rule ensures_mono) (rule ok_step [OF o])
qed

lemma index_of_safe: "ensures (index_of xs x) (\<lambda>i. True)"
proof (induction xs)
  case Nil
  show ?case by simp
next
  case (Cons y ys)
  show ?case
    by (simp only: index_of.simps) (rule ensures_if, simp, rule ensures_bind [OF Cons], simp)
qed

lemma cap_quantiles_safe: "ensures (cap_quantiles qs mads) (\<lambda>r. True)"
proof (induction qs)
  case Nil
  show ?case by simp
next
  case (Cons kv qs)
  obtain k v where kv: "kv = (k, v)" by (cases kv)
  show ?case
  proof (cases "map_of mads k")
    case None
    then show ?thesis by (simp add: kv)
  next
    case (Some m)
    show ?thesis
      unfolding kv by (simp add: Some) (rule ensures_bind [OF Cons], simp)
  qed
qed

lemma refine_features_ok:
  "ok B l pl cf_ix h0 h \<Longrightarrow>
   ensures (refine_features fuel self alg decimal_prec h q l cf_ix feats) (ok B l pl cf_ix h0)"
proof (induction feats arbitrary: h)
  case Nil
  then show ?case by simp
next
  case (Cons ft feats)
  obtain feature tolerance where ft: "ft = (feature, tolerance)" by (cases ft)
  show ?case
    unfolding ft
    apply (simp only: refine_features.simps)
    apply (rule ensures_bind [OF cf_predict_ok [OF Cons.prems]])
    apply (rule ensures_bind [OF index_of_safe])
    apply (rule ensures_bind [OF arr_get_safe])
    apply (rule ensures_bind [OF cf_get_ok [OF Cons.prems]])
    apply (rule ensures_bind [where P = "ok B l pl cf_ix h0"])
     apply (rule ensures_if)
      apply (rule ensures_if)
       apply (rule ensures_bind [OF do_linear_search_ok [OF Cons.prems]])
       apply (simp only: case_prod_beta)
       apply (rule list_set_ok, simp, simp)
      apply (rule ensures_if)
       apply (rule ensures_bind [OF do_binary_search_ok [OF Cons.prems]])
       apply (simp only: case_prod_beta)
       apply (rule list_set_ok, simp, simp)
      apply (simp add: Cons.prems)
     apply (simp add: Cons.prems)
    apply (rule Cons.IH, assumption)
    done
qed

lemma refine_members_good:
  assumes "pre B l pl h0"
  shows "list_all (\<lambda>i. in_range l i h0) ixs \<Longrightarrow> good B l pl h0 h \<Longrightarrow>
   ensures (refine_members fuel self alg decimal_prec feats h q l pl ixs) (good B l pl h0)"
proof (induction ixs arbitrary: h)
  case Nil
  then show ?case by simp
next
  case (Cons cf_ix ixs)
  have o: "ok B l pl cf_ix h0 h"
    using assms Cons.prems by (simp add: ok_def)
  have rest: "list_all (\<lambda>i. in_range l i h0) ixs"
    using Cons.prems(1) by simp
  have g: "ok B l pl cf_ix h0 h2 \<Longrightarrow> good B l pl h0 h2" for h2
    by (simp add: ok_def)
  show ?case
    apply (simp only: refine_members.simps)
    apply (rule ensures_bind [OF cf_predict_ok [OF o]])
    apply (rule ensures_bind [where P = "ok B l pl cf_ix h0"])
     apply (rule ensures_if)
      apply (simp add: o)
     apply (rule ensures_bind [OF refine_features_ok [OF o]])
     apply (rule ensures_bind [OF cf_predict_ok], assumption)
     apply (rule store_pred_ok, assumption)
    apply (rule Cons.IH [OF rest])
    apply (erule g)
    done
qed

lemma member_indices_in_range: "list_all (\<lambda>i. i < len) (member_indices self len)"
  by (auto simp: member_indices_def list_all_iff)

lemma do_posthoc_good:
  assumes "pre B l pl h"
  shows "ensures (do_posthoc_sparsity_enhancement fuel self h l pl q alg)
           (\<lambda>r. good B l pl h (fst r) \<and> fst (snd r) = l \<and> snd (snd r) = pl)"
  unfolding do_posthoc_sparsity_enhancement_def
proof (rule ensures_bind [OF cap_quantiles_safe],
    rule ensures_bind [where P = "\<lambda>n. list_all (\<lambda>i. in_range l i h) (member_indices self n)"])
  show "ensures (list_len h l) (\<lambda>n. list_all (\<lambda>i. in_range l i h) (member_indices self n))"
    using member_indices_in_range
    by (auto simp: list_len_def in_range_def split: obj.splits)
next
  fix quantiles :: "(string \<times> real) list" and len
  assume r: "list_all (\<lambda>i. in_range l i h) (member_indices self len)"
  show "ensures
        (and_then
          (refine_members fuel self alg
            (take (length (encoded_continuous_feature_indexes self))
              (decimal_precisions (data_interface self)))
            (features_sorted quantiles) h q l pl (member_indices self len))
          (\<lambda>h'. Return (h', l, pl)))
        (\<lambda>r. good B l pl h (fst r) \<and> fst (snd r) = l \<and> snd (snd r) = pl)"
    by (rule ensures_bind [OF refine_members_good [OF assms r good_refl [OF assms]]]) simp
qed

lemma ensures_not_raise: "ensures m Q \<Longrightarrow> m \<noteq> Raise (IndexError CfList)"
  by (cases m) simp_all

lemma and_then_Return:
  "and_then m f = Return y \<Longrightarrow> \<exists>x. m = Return x \<and> f x = Return y"
  by (cases m) simp_all

lemma deepcopy_arrays_post:
  assumes "deepcopy_arrays h memo as = Return (h', bs)"
    and "list_all (\<lambda>kv. B \<le> snd kv) memo" "B \<le> fresh h"
  shows "fresh h \<le> fresh h' \<and> (\<forall>a<fresh h. store h' a = store h a) \<and>
         list_all (\<lambda>b. B \<le> b) bs \<and> length bs = length as"
  using assms
proof (induction as arbitrary: h memo h' bs)
  case Nil
  then show ?case by simp
next
  case (Cons a as)
  show ?case
  proof (cases "map_of memo a")
    case (Some b)
    then have "(a, b) \<in> set memo"
      by (rule map_of_SomeD)
    then have b: "B \<le> b"
      using Cons.prems(2) by (auto simp: list_all_iff)
    from Cons.prems(1) Some
    obtain r where r: "deepcopy_arrays h memo as = Return r"
      "(case r of (h', bs) \<Rightarrow> Return (h', b # bs)) = Return (h', bs)"
      by (auto dest: and_then_Return)
    obtain h1 bs1 where r1: "r = (h1, bs1)" by (cases r)
    have eq: "h' = h1" "bs = b # bs1"
      using r(2) r1 by simp_all
    show ?thesis
      using Cons.IH [OF r(1) [unfolded r1] Cons.prems(2,3)] b eq by simp
  next
    case None
    show ?thesis
    proof (cases "store h a")
      case (Lst xs)
      then show ?thesis using Cons.prems(1) None by simp
    next
      case (Arr v)
      let ?h = "fst (alloc h (Arr v))"
      let ?b = "snd (alloc h (Arr v))"
      from Cons.prems(1) None Arr
      obtain r where r: "deepcopy_arrays ?h ((a, ?b) # memo) as = Return r"
        "(case r of (h', bs) \<Rightarrow> Return (h', ?b # bs)) = Return (h', bs)"
        by (auto dest: and_then_Return)
      obtain h1 bs1 where r1: "r = (h1, bs1)" by (cases r)
      have eq: "h' = h1" "bs = ?b # bs1"
        using r(2) r1 by simp_all
      have m: "list_all (\<lambda>kv. B \<le> snd kv) ((a, ?b) # memo)"
        using Cons.prems(2,3) by (simp add: alloc_def)
      have f: "B \<le> fresh ?h"
        using Cons.prems(3) by (simp add: alloc_def)
      have ih: "fresh ?h \<le> fresh h1 \<and> (\<forall>a<fresh ?h. store h1 a = store ?h a) \<and>
         list_all (\<lambda>b. B \<le> b) bs1 \<and> length bs1 = length as"
        using Cons.IH [OF r(1) [unfolded r1] m f] .
      have "store h1 x = store h x" if "x < fresh h" for x
      proof -
        have "store h1 x = store ?h x"
          using ih that by (simp add: alloc_def)
        then show ?thesis
          using that by (simp add: alloc_def)
      qed
      then show ?thesis
        using ih eq Cons.prems(3) by (simp add: alloc_def)
    qed
  qed
qed

lemma deepcopy_post:
  assumes "deepcopy h l = Return (h', l')"
  shows "fresh h \<le> l' \<and> l' < fresh h' \<and> (\<forall>a<fresh h. store h' a = store h a) \<and>
         above (fresh h) l' h' \<and> same_shape (store h l) (store h' l')"
proof (cases "store h l")
  case (Arr v)
  then show ?thesis
    using assms by (auto simp: deepcopy_def alloc_def above_def)
next
  case (Lst as)
  from assms Lst
  obtain r where r: "deepcopy_arrays h [] as = Return r"
    "(case r of (h1, bs) \<Rightarrow> Return (alloc h1 (Lst bs))) = Return (h', l')"
    by (auto simp: deepcopy_def dest: and_then_Return)
  obtain h1 bs where r1: "r = (h1, bs)" by (cases r)
  have p: "fresh h \<le> fresh h1 \<and> (\<forall>a<fresh h. store h1 a = store h a) \<and>
         list_all (\<lambda>b. fresh h \<le> b) bs \<and> length bs = length as"
    using deepcopy_arrays_post [OF r(1) [unfolded r1], of "fresh h"] by simp
  have eq: "h' = fst (alloc h1 (Lst bs))" "l' = fresh h1"
    using r(2) r1 by (auto simp: alloc_def)
  show ?thesis
    using p Lst unfolding eq by (simp add: alloc_def above_def)
qed

lemma above_mono: "above B l h \<Longrightarrow> C \<le> B \<Longrightarrow> above C l h"
  by (auto simp: above_def list_all_iff split: obj.splits)

lemma refine_copy_good:
  assumes "refine_copy fuel self h final_cfs_at cfs_preds_at q alg = Return (h', sparse, preds_sparse)"
    and "cfs_preds_at < fresh h"
  shows "(\<forall>a<fresh h. store h' a = store h a) \<and> fresh h \<le> sparse \<and> fresh h \<le> preds_sparse \<and>
         above (fresh h) sparse h' \<and> above (fresh h) preds_sparse h' \<and>
         same_shape (store h final_cfs_at) (store h' sparse) \<and>
         same_shape (store h cfs_preds_at) (store h' preds_sparse)"
proof -
  from assms(1) obtain r1 where r1: "deepcopy h final_cfs_at = Return r1"
    "(case r1 of (h1, l1) \<Rightarrow>
        and_then (deepcopy h1 cfs_preds_at) (\<lambda>(h2, pl2).
          do_posthoc_sparsity_enhancement fuel self h2 l1 pl2 q alg)) = Return (h', sparse, preds_sparse)"
    unfolding refine_copy_def by (auto dest: and_then_Return)
  obtain h1 l1 where e1: "r1 = (h1, l1)" by (cases r1)
  from r1(2) e1 obtain r2 where r2: "deepcopy h1 cfs_preds_at = Return r2"
    "(case r2 of (h2, pl2) \<Rightarrow> do_posthoc_sparsity_enhancement fuel self h2 l1 pl2 q alg)
       = Return (h', sparse, preds_sparse)"
    by (auto dest: and_then_Return)
  obtain h2 pl2 where e2: "r2 = (h2, pl2)" by (cases r2)
  have run: "do_posthoc_sparsity_enhancement fuel self h2 l1 pl2 q alg = Return (h', sparse, preds_sparse)"
    using r2(2) e2 by simp
  note d1 = deepcopy_post [OF r1(1) [unfolded e1]]
  note d2 = deepcopy_post [OF r2(1) [unfolded e2]]
  have b1: "fresh h \<le> l1" "l1 < fresh h1" "above (fresh h) l1 h1"
    and f1: "\<And>a. a < fresh h \<Longrightarrow> store h1 a = store h a"
    and s1: "same_shape (store h final_cfs_at) (store h1 l1)"
    using d1 by simp_all
  have b2: "fresh h1 \<le> pl2" "pl2 < fresh h2" "above (fresh h1) pl2 h2"
    and f2: "\<And>a. a < fresh h1 \<Longrightarrow> store h2 a = store h1 a"
    and s2: "same_shape (store h1 cfs_preds_at) (store h2 pl2)"
    using d2 by simp_all
  have l1_same: "store h2 l1 = store h1 l1"
    using f2 [OF b1(2)] .
  have a1: "above (fresh h) l1 h2"
    using b1(3) l1_same by (simp add: above_def)
  have le: "fresh h \<le> fresh h1"
    using b1(1,2) by linarith
  have a2: "above (fresh h) pl2 h2"
    using b2(3) le by (rule above_mono)
  have p: "pre (fresh h) l1 pl2 h2"
    using a1 a2 b1 b2 le by (simp add: pre_def)
  have g: "good (fresh h) l1 pl2 h2 h'" and names: "sparse = l1" "preds_sparse = pl2"
    using ensures_Return [OF do_posthoc_good [OF p] run] by simp_all
  have f3: "\<And>a. a < fresh h \<Longrightarrow> store h' a = store h2 a"
    and a3: "above (fresh h) l1 h'" "above (fresh h) pl2 h'"
    and s3: "\<And>a. a < fresh h2 \<Longrightarrow> same_shape (store h2 a) (store h' a)"
    using g by (simp_all add: good_def)
  have frame: "store h' a = store h a" if "a < fresh h" for a
  proof -
    have "a < fresh h1"
      using that le by linarith
    then show ?thesis
      using f3 [OF that] f2 [of a] f1 [OF that] by simp
  qed
  have "l1 < fresh h2"
    using b1(2) b2(1,2) by linarith
  then have "same_shape (store h1 l1) (store h' l1)"
    using s3 [of l1] l1_same by simp
  with s1 have t1: "same_shape (store h final_cfs_at) (store h' l1)"
    by (rule same_shape_trans)
  have "same_shape (store h cfs_preds_at) (store h2 pl2)"
    using s2 f1 [OF assms(2)] by simp
  then have t2: "same_shape (store h cfs_preds_at) (store h' pl2)"
    using s3 [OF b2(2)] by (rule same_shape_trans)
  show ?thesis
    using frame a3 b1(1) b2(1) le names t1 t2 by simp
qed

subsection \<open>The linear search keeps a valid counterfactual valid\<close>

text \<open>
  A step of the linear search whose prediction falls strictly on the wrong side is
  undone, which restores the heap; any other step leaves a valid prediction. So the
  array the linear search returns has a valid prediction whenever it started from one.
\<close>

lemma cf_set_back:
  assumes "cf_get h l i j = Return old" "cf_set h l i j x = Return h1"
    "cf_set h1 l i j old = Return h2"
  shows "h2 = h"
proof -
  obtain as where l: "store h l = Lst as" "i < length as"
    using assms(1) by (auto simp: cf_get_def list_get_def split: obj.splits if_splits)
  obtain v where a: "store h (as ! i) = Arr v" "j < length v" "v ! j = old"
    using assms(1) l by (auto simp: cf_get_def list_get_def arr_get_def split: obj.splits if_splits)
  have ne: "as ! i \<noteq> l"
    using l a by auto
  have h1: "h1 = h\<lparr>store := (store h)(as ! i := Arr (v[j := x]))\<rparr>"
    using assms(2) l a by (simp add: cf_set_def list_get_def arr_set_def)
  have "h2 = h1\<lparr>store := (store h1)(as ! i := Arr (v[j := x, j := old]))\<rparr>"
    using assms(3) l a ne unfolding h1 by (simp add: cf_set_def list_get_def arr_set_def)
  moreover have "v[j := old] = v"
    using a(3) list_update_id [of v j] by simp
  ultimately have "h2 = h\<lparr>store := (store h)(as ! i := Arr v)\<rparr>"
    unfolding h1 by simp
  then show ?thesis
    using a(1) by (simp add: fun_upd_idem)
qed

lemma strict_cases:
  "strictly_valid self p \<Longrightarrow> \<not> strictly_invalid self q \<Longrightarrow>
   is_valid (target_cf_class self) (stopping_threshold self) q"
  by (auto simp: strictly_valid_def strictly_invalid_def is_valid_def)

lemma linear_loop_keeps_valid:
  assumes "linear_loop fuel self h q l cf_ix feat_ix change diff old_diff current_pred
             = Return (h', a)"
    and "cf_predict self h l cf_ix = Return current_pred"
    and "is_valid (target_cf_class self) (stopping_threshold self) current_pred"
  shows "\<exists>p. cf_predict self h' l cf_ix = Return p \<and>
             is_valid (target_cf_class self) (stopping_threshold self) p"
  using assms
proof (induction fuel arbitrary: h diff old_diff current_pred)
  case 0
  then show ?case by simp
next
  case (Suc fuel)
  show ?case
  proof (cases "\<bar>diff\<bar> > 0.001 \<and> sgn (diff * old_diff) > 0 \<and> strictly_valid self current_pred")
    case False
    then have "h' = h"
      using Suc.prems(1) by (auto dest!: and_then_Return)
    then show ?thesis
      using Suc.prems(2,3) by simp
  next
    case True
    from Suc.prems(1) True obtain old_val where g: "cf_get h l cf_ix feat_ix = Return old_val"
      and r1: "and_then (cf_set h l cf_ix feat_ix (old_val + sgn diff * change)) (\<lambda>h1.
        and_then (cf_predict self h1 l cf_ix) (\<lambda>pred.
          if strictly_invalid self pred then
            and_then (cf_set h1 l cf_ix feat_ix old_val) (\<lambda>h2.
            and_then (arr_get h2 q feat_ix) (\<lambda>qv.
            and_then (cf_get h2 l cf_ix feat_ix) (\<lambda>cv.
            and_then (list_get h2 CfList l cf_ix) (\<lambda>a. Return (h2, a)))))
          else
            and_then (arr_get h1 q feat_ix) (\<lambda>qv.
            and_then (cf_get h1 l cf_ix feat_ix) (\<lambda>cv.
              linear_loop fuel self h1 q l cf_ix feat_ix change (qv - cv) diff pred))))
        = Return (h', a)"
      by (auto dest!: and_then_Return)
    from r1 obtain h1 where s1: "cf_set h l cf_ix feat_ix (old_val + sgn diff * change) = Return h1"
      and r2: "and_then (cf_predict self h1 l cf_ix) (\<lambda>pred.
          if strictly_invalid self pred then
            and_then (cf_set h1 l cf_ix feat_ix old_val) (\<lambda>h2.
            and_then (arr_get h2 q feat_ix) (\<lambda>qv.
            and_then (cf_get h2 l cf_ix feat_ix) (\<lambda>cv.
            and_then (list_get h2 CfList l cf_ix) (\<lambda>a. Return (h2, a)))))
          else
            and_then (arr_get h1 q feat_ix) (\<lambda>qv.
            and_then (cf_get h1 l cf_ix feat_ix) (\<lambda>cv.
              linear_loop fuel self h1 q l cf_ix feat_ix change (qv - cv) diff pred)))
        = Return (h', a)"
      by (auto dest!: and_then_Return)
    from r2 obtain pred where p1: "cf_predict self h1 l cf_ix = Return pred"
      and r3: "(if strictly_invalid self pred then
            and_then (cf_set h1 l cf_ix feat_ix old_val) (\<lambda>h2.
            and_then (arr_get h2 q feat_ix) (\<lambda>qv.
            and_then (cf_get h2 l cf_ix feat_ix) (\<lambda>cv.
            and_then (list_get h2 CfList l cf_ix) (\<lambda>a. Return (h2, a)))))
          else
            and_then (arr_get h1 q feat_ix) (\<lambda>qv.
            and_then (cf_get h1 l cf_ix feat_ix) (\<lambda>cv.
              linear_loop fuel self h1 q l cf_ix feat_ix change (qv - cv) diff pred)))
        = Return (h', a)"
      by (auto dest!: and_then_Return)
    show ?thesis
    proof (cases "strictly_invalid self pred")
      case True
      with r3 obtain h2 where s2: "cf_set h1 l cf_ix feat_ix old_val = Return h2" and "h' = h2"
        by (auto dest!: and_then_Return)
      then have "h' = h"
        using cf_set_back [OF g s1 s2] by simp
      then show ?thesis
        using Suc.prems(2,3) by simp
    next
      case False
      with r3 obtain qv cv where
        rec: "linear_loop fuel self h1 q l cf_ix feat_ix change (qv - cv) diff pred = Return (h', a)"
        by (auto dest!: and_then_Return)
      have "strictly_valid self current_pred"
        using \<open>\<bar>diff\<bar> > 0.001 \<and> sgn (diff * old_diff) > 0 \<and> strictly_valid self current_pred\<close>
        by simp
      then have v: "is_valid (target_cf_class self) (stopping_threshold self) pred"
        using False by (rule strict_cases)
      show ?thesis
        by (rule Suc.IH [OF rec p1 v])
    qed
  qed
qed

lemma do_linear_search_keeps_valid:
  assumes "do_linear_search fuel self h diff decimal_prec q cf_ix feat_ix l current_pred
             = Return (h', a)"
    and "cf_predict self h l cf_ix = Return current_pred"
    and "is_valid (target_cf_class self) (stopping_threshold self) current_pred"
  shows "\<exists>p. cf_predict self h' l cf_ix = Return p \<and>
             is_valid (target_cf_class self) (stopping_threshold self) p"
proof -
  from assms(1) obtain change where
    "linear_loop fuel self h q l cf_ix feat_ix change diff diff current_pred = Return (h', a)"
    unfolding do_linear_search_def by (auto dest!: and_then_Return split: if_splits)
  then show ?thesis
    using assms(2,3) by (rule linear_loop_keeps_valid)
qed

subsection \<open>The refiner on an example\<close>

text \<open>
  One continuous feature of range \<open>[0, 1]\<close> and precision 1; the oracle is a step at 0.1.
  In the heap, address 0 is the query \<open>[0]\<close>, 1 the counterfactual \<open>[0.2]\<close>, 2 the list
  of counterfactuals, 3 the prediction and 4 the list of predictions.
\<close>

definition step_oracle :: "real list \<Rightarrow> real" where
  "step_oracle x = (if x ! 0 \<ge> 0.1 then 1 else 0)"

definition one_feature :: data_interface where
  "one_feature =
     \<lparr> feature_names = [''x''], encoded_feature_names = [''x''],
       decimal_precisions = [1],
       normalized_quantiles = [(''x'', 0.5)],
       normalized_mads = [(''x'', 0.6)],
       get_indexes_of_features_to_vary = (\<lambda>v. [0]) \<rparr>"

definition step_explainer :: explainer where
  "step_explainer =
     \<lparr> data_interface = one_feature,
       predict_fn = step_oracle, total_CFs = 1, total_random_inits = 0,
       population_size = 100, minx = [0], maxx = [1], cont_minx = [0],
       cont_maxx = [1], encoded_continuous_feature_indexes = [0],
       encoded_categorical_feature_indexes = [],
       feature_weights_list = [1], yloss_type = ''l2_loss'',
       diversity_loss_type = ''dpp_style:inverse_dist'', proximity_weight = 0,
       diversity_weight = 0, categorical_penalty = 0, x1 = [0],
       target_cf_class = 1,
       stopping_threshold = 0.5, cfs = [], features_to_vary = All,
       feat_to_vary_idxs = [0], freezer = [1], cf_init_weights = None \<rparr>"

definition step_heap :: heap where
  "step_heap =
     \<lparr> store = (\<lambda>a. if a = 0 then Arr [0] else if a = 1 then Arr [0.2]
                    else if a = 2 then Lst [1] else if a = 3 then Arr [1] else Lst [3]),
       fresh = 5 \<rparr>"


lemma five: "(5::nat) = Suc (Suc (Suc (Suc (Suc 0))))"
  by simp

lemma sort_one: "features_sorted [kv] = [kv]"
  by (simp add: features_sorted_def)

lemmas run_simps = refine_copy_def deepcopy_def alloc_def do_posthoc_sparsity_enhancement_def
  member_indices_def loop_find_CFs_def sort_one step_explainer_def one_feature_def step_heap_def
  step_oracle_def cf_predict_def cf_get_def cf_set_def list_get_def list_set_def arr_get_def
  arr_set_def predict_at_def list_len_def seq_get_def strictly_valid_def strictly_invalid_def
  do_binary_search_def do_linear_search_def py_round_nd_def py_round_def Let_def

text \<open>
  C1 (the code differs). The binary search leaves the loop at \<^verbatim>\<open>break\<close> with the value it
  has just written, whatever its prediction. Here the oracle is a step at 0.1, class 1
  is wanted at threshold 0.5, the counterfactual is \<open>[0.2]\<close> (prediction 1, valid) and
  the query is \<open>[0]\<close>: the search tries 0.1 (valid), narrows to \<open>[0, 0]\<close>, writes 0 and
  stops. The refined counterfactual is \<open>[0]\<close>, with prediction 0: not valid.
\<close>

theorem binary_search_returns_invalid:
  "cf_predict step_explainer step_heap 2 0 = Return 1 \<and>
   is_valid (target_cf_class step_explainer) (stopping_threshold step_explainer) 1 \<and>
   (\<exists>h'. do_posthoc_sparsity_enhancement 5 step_explainer step_heap 2 4 0 ''binary''
            = Return (h', 2, 4) \<and>
          store h' 1 = Arr [0] \<and> cf_predict step_explainer h' 2 0 = Return 0) \<and>
   \<not> is_valid (target_cf_class step_explainer) (stopping_threshold step_explainer) 0"
  unfolding five by (simp add: run_simps is_valid_def)


text \<open>
  C9. The refiner works on a deep copy: when the raw set and its predictions are lists
  of allocated arrays, then after the refinement both lists hold the same arrays with
  the same entries as before, the refined lists are other objects, and no array of a
  refined list is an array of a raw list.
\<close>

theorem refiner_works_on_a_copy:
  assumes "refine_copy fuel self h final_cfs_at cfs_preds_at q alg
             = Return (h', sparse, preds_sparse)"
    and "store h final_cfs_at = Lst raw" "store h cfs_preds_at = Lst raw_preds"
    and "final_cfs_at < fresh h" "cfs_preds_at < fresh h"
    and "list_all (\<lambda>a. a < fresh h) raw" "list_all (\<lambda>a. a < fresh h) raw_preds"
  shows "store h' final_cfs_at = Lst raw \<and> store h' cfs_preds_at = Lst raw_preds \<and>
         list_all (\<lambda>a. store h' a = store h a) raw \<and>
         list_all (\<lambda>a. store h' a = store h a) raw_preds \<and>
         sparse \<noteq> final_cfs_at \<and> preds_sparse \<noteq> cfs_preds_at \<and>
         (\<exists>bs ps. store h' sparse = Lst bs \<and> store h' preds_sparse = Lst ps \<and>
            length bs = length raw \<and>
            list_all (\<lambda>b. b \<notin> set raw \<and> b \<notin> set raw_preds) bs \<and>
            list_all (\<lambda>b. b \<notin> set raw \<and> b \<notin> set raw_preds) ps)"
proof -
  note g = refine_copy_good [OF assms(1) assms(5)]
  have frame: "\<And>a. a < fresh h \<Longrightarrow> store h' a = store h a"
    and new: "fresh h \<le> sparse" "fresh h \<le> preds_sparse"
    and ab: "above (fresh h) sparse h'" "above (fresh h) preds_sparse h'"
    and sh: "same_shape (store h final_cfs_at) (store h' sparse)"
      "same_shape (store h cfs_preds_at) (store h' preds_sparse)"
    using g by simp_all
  have old: "a < fresh h" if "a \<in> set raw \<or> a \<in> set raw_preds" for a
    using that assms(6,7) by (auto simp: list_all_iff)
  obtain bs where bs: "store h' sparse = Lst bs" "length bs = length raw"
    using sh(1) assms(2) by (cases "store h' sparse") (simp_all add: same_shape_def)
  obtain ps where ps: "store h' preds_sparse = Lst ps"
    using sh(2) assms(3) by (cases "store h' preds_sparse") (simp_all add: same_shape_def)
  have fresh_elem: "b \<notin> set raw \<and> b \<notin> set raw_preds" if "fresh h \<le> b" for b
    using that old [of b] by auto
  have "list_all (\<lambda>b. fresh h \<le> b) bs" "list_all (\<lambda>b. fresh h \<le> b) ps"
    using ab bs ps by (simp_all add: above_def)
  then have disj: "list_all (\<lambda>b. b \<notin> set raw \<and> b \<notin> set raw_preds) bs"
    "list_all (\<lambda>b. b \<notin> set raw \<and> b \<notin> set raw_preds) ps"
    using fresh_elem by (auto simp: list_all_iff)
  have keep: "list_all (\<lambda>a. store h' a = store h a) raw"
    "list_all (\<lambda>a. store h' a = store h a) raw_preds"
    using frame old by (auto simp: list_all_iff)
  have "store h' final_cfs_at = Lst raw" "store h' cfs_preds_at = Lst raw_preds"
    using frame [OF assms(4)] frame [OF assms(5)] assms(2,3) by simp_all
  moreover have "sparse \<noteq> final_cfs_at" "preds_sparse \<noteq> cfs_preds_at"
    using new assms(4,5) by auto
  ultimately show ?thesis
    using keep disj bs ps by simp
qed

theorem refiner_works_on_a_copy_witness:
  "\<exists>h'. refine_copy 5 step_explainer step_heap 2 4 0 ''binary'' = Return (h', 6, 8) \<and>
     store step_heap 2 = Lst [1] \<and> store step_heap 4 = Lst [3] \<and>
     store h' 2 = Lst [1] \<and> store h' 4 = Lst [3] \<and>
     store h' 1 = Arr [0.2] \<and> store h' 3 = Arr [1] \<and>
     (\<exists>bs ps. store h' 6 = Lst bs \<and> store h' 8 = Lst ps \<and> length bs = 1 \<and>
        list_all (\<lambda>b. b \<noteq> 1 \<and> b \<noteq> 3) bs \<and> list_all (\<lambda>b. b \<noteq> 1 \<and> b \<noteq> 3) ps)"
proof -
  have "\<exists>h'. refine_copy 5 step_explainer step_heap 2 4 0 ''binary'' = Return (h', 6, 8)"
    unfolding five by (simp add: run_simps)
  then obtain h' where run: "refine_copy 5 step_explainer step_heap 2 4 0 ''binary''
      = Return (h', 6, 8)"
    by blast
  have pre: "store step_heap 2 = Lst [1]" "store step_heap 4 = Lst [3]"
    "2 < fresh step_heap" "4 < fresh step_heap"
    "list_all (\<lambda>a. a < fresh step_heap) [1]" "list_all (\<lambda>a. a < fresh step_heap) [3]"
    "store step_heap 1 = Arr [0.2]" "store step_heap 3 = Arr [1]"
    by (simp_all add: step_heap_def)
  show ?thesis
    using refiner_works_on_a_copy [OF run pre(1-6)] run pre by auto
qed

text \<open>The bound of the member loop as the claim words it.\<close>

definition claimed_member_indices :: "explainer \<Rightarrow> nat \<Rightarrow> nat list" where
  "claimed_member_indices self len =
     [0..<nat (min (max (total_random_inits self) (total_CFs self)) (int len))]"

text \<open>
  C10. The member loop runs over the indices below \<open>min (max L total_CFs) len\<close>, where
  \<open>L\<close> is \<open>total_random_inits\<close> when that is positive and 1 otherwise, and every index
  is below the length of the list. This is the worded bound
  \<open>min (max total_random_inits total_CFs) len\<close> exactly when a counterfactual is requested
  (\<open>total_CFs \<ge> 1\<close> or \<open>total_random_inits \<ge> 1\<close>) or the list is empty, and so for every
  list that the sampling search returns: there the loop visits exactly the members that
  exist, all valid rows on a shortfall and the drawn rows otherwise. The pass never
  raises an IndexError on the list of counterfactuals it is given (an allocated object).
\<close>

theorem member_loop_in_range:
  "member_indices self len =
     [0..<nat (min (max (if total_random_inits self > 0 then total_random_inits self else 1)
                      (total_CFs self)) (int len))] \<and>
   list_all (\<lambda>i. i < len) (member_indices self len) \<and>
   (member_indices self len = claimed_member_indices self len
      \<longleftrightarrow> total_CFs self \<ge> 1 \<or> total_random_inits self \<ge> 1 \<or> len = 0) \<and>
   (int (length (valid_rows self cfs_df)) < total_CFs self \<longrightarrow>
      (\<exists>out. select_counterfactuals self verbose chosen cfs_df = Inr out \<and>
         member_indices self (length (final_cfs out))
           = claimed_member_indices self (length (final_cfs out)) \<and>
         member_indices self (length (final_cfs out)) = [0..<length (final_cfs out)])) \<and>
   (total_CFs self \<le> int (length (valid_rows self cfs_df)) \<and>
    sample_positions chosen (total_CFs self) (length (valid_rows self cfs_df)) \<longrightarrow>
      (\<exists>out. select_counterfactuals self verbose chosen cfs_df = Inr out \<and>
         member_indices self (length (final_cfs out))
           = claimed_member_indices self (length (final_cfs out)) \<and>
         member_indices self (length (final_cfs out)) = [0..<length (final_cfs out)])) \<and>
   (final_cfs_sparse < fresh h \<longrightarrow>
      do_posthoc_sparsity_enhancement fuel self h final_cfs_sparse cfs_preds_sparse q alg
        \<noteq> Raise (IndexError CfList))"
proof (intro conjI impI)
  show "member_indices self len =
     [0..<nat (min (max (if total_random_inits self > 0 then total_random_inits self else 1)
                      (total_CFs self)) (int len))]"
    by (simp add: member_indices_def loop_find_CFs_def)
  show "list_all (\<lambda>i. i < len) (member_indices self len)"
    by (rule member_indices_in_range)
  show "member_indices self len = claimed_member_indices self len
      \<longleftrightarrow> total_CFs self \<ge> 1 \<or> total_random_inits self \<ge> 1 \<or> len = 0"
    by (auto simp: member_indices_def claimed_member_indices_def loop_find_CFs_def max_def
        min_def split: if_splits)
next
  let ?v = "valid_rows self cfs_df"
  assume short: "int (length ?v) < total_CFs self"
  have out: "select_counterfactuals self verbose chosen cfs_df =
      Inr \<lparr> final_cfs = map fst ?v, cfs_preds = map snd ?v,
            valid_cfs_found = False, total_cfs_found = int (length ?v),
            printed = Some (OnlyFound (int (length ?v)) (total_CFs self)) \<rparr>"
    using short by (simp add: select_counterfactuals_def Let_def)
  have m: "member_indices self (length ?v) = [0..<length ?v]"
    using short by (simp add: member_indices_def loop_find_CFs_def max_def min_def)
  have c: "claimed_member_indices self (length ?v) = [0..<length ?v]"
    using short by (simp add: claimed_member_indices_def max_def min_def)
  show "\<exists>out. select_counterfactuals self verbose chosen cfs_df = Inr out \<and>
         member_indices self (length (final_cfs out))
           = claimed_member_indices self (length (final_cfs out)) \<and>
         member_indices self (length (final_cfs out)) = [0..<length (final_cfs out)]"
    unfolding out using m c by simp
next
  let ?v = "valid_rows self cfs_df"
  let ?rows = "map (\<lambda>i. ?v ! i) chosen"
  assume a: "total_CFs self \<le> int (length ?v) \<and>
    sample_positions chosen (total_CFs self) (length ?v)"
  then have len: "int (length chosen) = total_CFs self"
    by (simp add: sample_positions_def)
  have s: "df_sample chosen (total_CFs self) ?v = Inr ?rows"
    using a len by (simp add: df_sample_def)
  have out: "select_counterfactuals self verbose chosen cfs_df =
      Inr \<lparr> final_cfs = map fst ?rows, cfs_preds = map snd ?rows,
            valid_cfs_found = True, total_cfs_found = int (length ?v),
            printed = (if verbose then Some DiverseFound else None) \<rparr>"
    using a s by (simp add: select_counterfactuals_def Let_def)
  have m: "member_indices self (length chosen) = [0..<length chosen]"
    unfolding len [symmetric] member_indices_def loop_find_CFs_def by (simp add: max_def min_def)
  have c: "claimed_member_indices self (length chosen) = [0..<length chosen]"
    unfolding len [symmetric] claimed_member_indices_def by (simp add: max_def min_def)
  show "\<exists>out. select_counterfactuals self verbose chosen cfs_df = Inr out \<and>
         member_indices self (length (final_cfs out))
           = claimed_member_indices self (length (final_cfs out)) \<and>
         member_indices self (length (final_cfs out)) = [0..<length (final_cfs out)]"
    unfolding out using m c by simp
next
  show "do_posthoc_sparsity_enhancement fuel self h final_cfs_sparse cfs_preds_sparse q alg
        \<noteq> Raise (IndexError CfList)" if "final_cfs_sparse < fresh h"
  proof -
    have "pre 0 final_cfs_sparse cfs_preds_sparse h"
      using that by (simp add: pre_def above_def list_all_iff split: obj.splits)
    then show ?thesis
      by (rule ensures_not_raise [OF do_posthoc_good])
  qed
qed

text \<open>
  Three counterfactuals are requested and the sampling search found one: the loop
  visits the one member that exists. One is requested and two are valid: the loop visits
  the one that was drawn.
\<close>

theorem member_loop_in_range_witness:
  "member_indices (step_explainer\<lparr>total_CFs := 3\<rparr>) 1 = [0] \<and>
   claimed_member_indices (step_explainer\<lparr>total_CFs := 3\<rparr>) 1 = [0] \<and>
   (\<exists>out. select_counterfactuals (step_explainer\<lparr>total_CFs := 3\<rparr>) True []
        [([0.2], 1), ([0], 0)] = Inr out \<and>
      final_cfs out = [[0.2]] \<and>
      member_indices (step_explainer\<lparr>total_CFs := 3\<rparr>) (length (final_cfs out)) = [0]) \<and>
   (\<exists>out. select_counterfactuals step_explainer True [1] [([0.2], 1), ([1], 1)] = Inr out \<and>
      final_cfs out = [[1]] \<and>
      member_indices step_explainer (length (final_cfs out)) = [0]) \<and>
   2 < fresh step_heap \<and>
   do_posthoc_sparsity_enhancement 5 (step_explainer\<lparr>total_CFs := 3\<rparr>) step_heap 2 4 0 ''linear''
     \<noteq> Raise (IndexError CfList)"
proof -
  let ?three = "step_explainer\<lparr>total_CFs := 3\<rparr>"
  let ?short = "[([0.2], 1), ([0], 0)] :: (real list \<times> real) list"
  let ?full = "[([0.2], 1), ([1], 1)] :: (real list \<times> real) list"
  have v1: "valid_rows ?three ?short = [([0.2], 1)]"
    by (simp add: valid_rows_def is_valid_def step_explainer_def)
  have v2: "valid_rows step_explainer ?full = ?full"
    by (simp add: valid_rows_def is_valid_def step_explainer_def)
  have t: "total_CFs ?three = 3" "total_CFs step_explainer = 1"
    by (simp_all add: step_explainer_def)
  have h1: "int (length (valid_rows ?three ?short)) < total_CFs ?three"
    unfolding v1 t by simp
  have h2: "total_CFs step_explainer \<le> int (length (valid_rows step_explainer ?full)) \<and>
      sample_positions [1] (total_CFs step_explainer) (length (valid_rows step_explainer ?full))"
    unfolding v2 t by (simp add: sample_positions_def)
  have h3: "2 < fresh step_heap"
    by (simp add: step_heap_def)
  have h4: "total_CFs ?three \<ge> 1 \<or> total_random_inits ?three \<ge> 1 \<or> (1::nat) = 0"
    unfolding t by simp
  note a = member_loop_in_range [of ?three 1 ?short True "[]" 2 step_heap 5 4 0 "''linear''"]
  note b = member_loop_in_range [of step_explainer 1 ?full True "[1]" 2 step_heap 5 4 0
      "''linear''"]
  have m: "member_indices ?three 1 = [0]"
    by (simp add: member_indices_def loop_find_CFs_def step_explainer_def)
  from a h4 have "member_indices ?three 1 = claimed_member_indices ?three 1"
    by blast
  with m have c: "claimed_member_indices ?three 1 = [0]"
    by simp
  from a h1 obtain out where o:
    "select_counterfactuals ?three True [] ?short = Inr out"
    "member_indices ?three (length (final_cfs out)) = [0..<length (final_cfs out)]"
    by blast
  have "select_counterfactuals ?three True [] ?short
     = Inr \<lparr> final_cfs = [[0.2]], cfs_preds = [1], valid_cfs_found = False,
             total_cfs_found = 1, printed = Some (OnlyFound 1 3) \<rparr>"
    unfolding select_counterfactuals_def Let_def v1 t by simp
  with o(1) have f1: "final_cfs out = [[0.2]]"
    by simp
  have p1: "member_indices ?three (length (final_cfs out)) = [0]"
    using o(2) unfolding f1 by simp
  from b h2 obtain out2 where o2:
    "select_counterfactuals step_explainer True [1] ?full = Inr out2"
    "member_indices step_explainer (length (final_cfs out2)) = [0..<length (final_cfs out2)]"
    by blast
  have "select_counterfactuals step_explainer True [1] ?full
     = Inr \<lparr> final_cfs = [[1]], cfs_preds = [1], valid_cfs_found = True,
             total_cfs_found = 2, printed = Some DiverseFound \<rparr>"
    unfolding select_counterfactuals_def Let_def v2 t by (simp add: df_sample_def)
  with o2(1) have f2: "final_cfs out2 = [[1]]"
    by simp
  have p2: "member_indices step_explainer (length (final_cfs out2)) = [0]"
    using o2(2) unfolding f2 by simp
  from a h3 have d: "do_posthoc_sparsity_enhancement 5 ?three step_heap 2 4 0 ''linear''
      \<noteq> Raise (IndexError CfList)"
    by blast
  show ?thesis
    using m c o(1) f1 p1 o2(1) f2 p2 h3 d by blast
qed

section \<open>Genetic search\<close>

subsection \<open>Random numbers\<close>

text \<open>
  The search draws from two generators: Python's \<^verbatim>\<open>random\<close> (\<^verbatim>\<open>random.random\<close>,
  \<^verbatim>\<open>random.choice\<close>) and NumPy's (\<^verbatim>\<open>np.random.uniform\<close>). Each is the sequence of
  the unit draws it will return and the position of the next one. \<^verbatim>\<open>random.choice\<close> takes
  the element at \<open>\<lfloor>u * len\<rfloor>\<close> and raises IndexError on an empty sequence.
\<close>

record rng =
  py_draws :: "nat \<Rightarrow> real"
  np_draws :: "nat \<Rightarrow> real"
  py_pos :: nat
  np_pos :: nat

definition random_random :: "rng \<Rightarrow> real \<times> rng" where
  "random_random r = (py_draws r (py_pos r), r\<lparr>py_pos := Suc (py_pos r)\<rparr>)"

definition random_choice :: "rng \<Rightarrow> 'a list \<Rightarrow> ('a \<times> rng) outcome" where
  "random_choice r xs =
     and_then (seq_get Choice xs (nat \<lfloor>py_draws r (py_pos r) * real (length xs)\<rfloor>))
       (\<lambda>x. Return (x, r\<lparr>py_pos := Suc (py_pos r)\<rparr>))"

definition random_uniform :: "rng \<Rightarrow> real \<Rightarrow> real \<Rightarrow> real \<times> rng" where
  "random_uniform r lo hi =
     (np_uniform lo hi (np_draws r (np_pos r)), r\<lparr>np_pos := Suc (np_pos r)\<rparr>)"

fun traverse :: "('a \<Rightarrow> 'b outcome) \<Rightarrow> 'a list \<Rightarrow> 'b list outcome" where
  "traverse f [] = Return []"
| "traverse f (x # xs) =
     and_then (f x) (\<lambda>y. and_then (traverse f xs) (\<lambda>ys. Return (y # ys)))"

subsection \<open>Fitness\<close>

text \<open>
  \<^verbatim>\<open>compute_yloss\<close> (dice_genetic.py, lines 84-100). \<^verbatim>\<open>math.log\<close> raises ValueError
  outside its domain; an unknown loss type leaves \<^verbatim>\<open>temp_loss\<close> unbound; the mean
  divides by \<^verbatim>\<open>total_CFs\<close>. The oracle returns a probability, so \<open>1 - \<bar>p - \<epsilon>\<bar>\<close> is
  positive; for another number the quotient of the source is infinite, which the model
  reports as ZeroDivisionError.
\<close>

definition sigmoid :: "real \<Rightarrow> real" where
  "sigmoid z = 1 / (1 + exp (- z))"

definition temp_logits :: "real \<Rightarrow> real outcome" where
  "temp_logits p =
     (if 1 - \<bar>p - 0.000001\<bar> = 0 then Raise ZeroDivisionError
      else if \<bar>p - 0.000001\<bar> / (1 - \<bar>p - 0.000001\<bar>) \<le> 0 then Raise ValueError
      else Return (ln (\<bar>p - 0.000001\<bar> / (1 - \<bar>p - 0.000001\<bar>))))"

definition temp_loss :: "explainer \<Rightarrow> real \<Rightarrow> real outcome" where
  "temp_loss self p =
     (if yloss_type self = ''l2_loss'' then Return ((p - target_cf_class self)\<^sup>2)
      else if yloss_type self = ''log_loss'' then
        and_then (temp_logits p) (\<lambda>z.
          Return (target_cf_class self * (- 1) * ln (sigmoid z)
                  + (1 - target_cf_class self) * (- 1) * ln (1 - sigmoid z)))
      else if yloss_type self = ''hinge_loss'' then
        and_then (temp_logits p) (\<lambda>z. Return (max 0 (1 - z * target_cf_class self)))
      else Raise UnboundLocalError)"

definition members :: "explainer \<Rightarrow> nat list" where
  "members self = [0..<nat (total_CFs self)]"

definition compute_yloss :: "explainer \<Rightarrow> real list list \<Rightarrow> real outcome" where
  "compute_yloss self cs =
     and_then (traverse (\<lambda>i. and_then (seq_get CfSet cs i)
                  (\<lambda>c. temp_loss self (predict_fn self c))) (members self)) (\<lambda>losses.
       if total_CFs self = 0 then Raise ZeroDivisionError
       else Return (sum_list losses / real_of_int (total_CFs self)))"

text \<open>\<^verbatim>\<open>compute_proximity_loss\<close> (lines 106-111): the distances to the query, summed
  and divided by the number of features.\<close>

definition compute_proximity_loss :: "explainer \<Rightarrow> real list list \<Rightarrow> real outcome" where
  "compute_proximity_loss self cs =
     and_then (traverse (\<lambda>i. and_then (seq_get CfSet cs i)
                  (\<lambda>c. Return (compute_dist self c (x1 self)))) (members self)) (\<lambda>ds.
       if length (minx self) = 0 then Raise ZeroDivisionError
       else Return (sum_list ds / real (length (minx self))))"

text \<open>
  \<^verbatim>\<open>compute_diversity_loss\<close> (lines 135-152): 0 for a single counterfactual; the
  determinant for a type that contains "dpp", with the submethod after the colon; one
  minus the mean similarity of the pairs for "avg_dist"; \<^verbatim>\<open>None\<close> for another type,
  which the weighted sum of \<^verbatim>\<open>compute_loss\<close> rejects with TypeError.
\<close>

fun starts_with :: "string \<Rightarrow> string \<Rightarrow> bool" where
  "starts_with [] s = True"
| "starts_with (c # cs) [] = False"
| "starts_with (c # cs) (d # ds) = (c = d \<and> starts_with cs ds)"

fun contains :: "string \<Rightarrow> string \<Rightarrow> bool" where
  "contains sub [] = (sub = [])"
| "contains sub (d # ds) = (starts_with sub (d # ds) \<or> contains sub ds)"

fun split_on :: "char \<Rightarrow> string \<Rightarrow> string list" where
  "split_on sep [] = [[]]"
| "split_on sep (c # cs) =
     (if c = sep then [] # split_on sep cs
      else (case split_on sep cs of [] \<Rightarrow> [[c]] | w # ws \<Rightarrow> (c # w) # ws))"

definition of_sum :: "py_error + 'a \<Rightarrow> 'a outcome" where
  "of_sum r = (case r of Inl e \<Rightarrow> Raise e | Inr x \<Rightarrow> Return x)"

definition pairs_of :: "explainer \<Rightarrow> (nat \<times> nat) list" where
  "pairs_of self =
     concat (map (\<lambda>i. map (\<lambda>j. (i, j)) [Suc i..<nat (total_CFs self)]) (members self))"

definition compute_diversity_loss :: "explainer \<Rightarrow> real list list \<Rightarrow> real option outcome" where
  "compute_diversity_loss self cs =
     (if total_CFs self = 1 then Return (Some 0)
      else if contains ''dpp'' (diversity_loss_type self) then
        and_then (seq_get Parts (split_on CHR '':'' (diversity_loss_type self)) 1) (\<lambda>submethod.
        and_then (of_sum (dpp_style self submethod cs)) (\<lambda>d. Return (Some d)))
      else if diversity_loss_type self = ''avg_dist'' then
        and_then (traverse (\<lambda>(i, j).
                    and_then (seq_get CfSet cs i) (\<lambda>ci.
                    and_then (seq_get CfSet cs j) (\<lambda>cj.
                      Return (1 / (1 + compute_dist self ci cj))))) (pairs_of self)) (\<lambda>sims.
          if sims = [] then Raise ZeroDivisionError
          else Return (Some (1 - sum_list sims / real (length sims))))
      else Return None)"

text \<open>
  \<^verbatim>\<open>compute_regularization_loss\<close> (lines 154-161): for every member and every
  one-hot block \<^verbatim>\<open>v\<close>, the squared distance of the sum of the block
  \<^verbatim>\<open>cfs[i][0, v[0]:v[-1] + 1]\<close> to 1.
\<close>

definition block_penalty :: "real list \<Rightarrow> nat list \<Rightarrow> real outcome" where
  "block_penalty c v =
     (if v = [] then Raise (IndexError Block)
      else Return ((sum_list (take (Suc (last v) - hd v) (drop (hd v) c)) - 1)\<^sup>2))"

definition compute_regularization_loss :: "explainer \<Rightarrow> real list list \<Rightarrow> real outcome" where
  "compute_regularization_loss self cs =
     and_then (traverse (\<lambda>i.
                 if encoded_categorical_feature_indexes self = [] then Return 0
                 else and_then (seq_get CfSet cs i) (\<lambda>c.
                   and_then (traverse (block_penalty c) (encoded_categorical_feature_indexes self))
                     (\<lambda>ps. Return (sum_list ps))))
               (members self)) (\<lambda>ps. Return (sum_list ps))"

text \<open>\<^verbatim>\<open>compute_loss\<close> (lines 163-175).\<close>

definition compute_loss :: "explainer \<Rightarrow> real list list \<Rightarrow> real outcome" where
  "compute_loss self cs =
     and_then (compute_yloss self cs) (\<lambda>yloss.
     and_then (if proximity_weight self > 0 then compute_proximity_loss self cs else Return 0)
       (\<lambda>proximity_loss.
     and_then (if diversity_weight self > 0 then compute_diversity_loss self cs
               else Return (Some 0))
       (\<lambda>diversity_loss.
     and_then (compute_regularization_loss self cs) (\<lambda>regularization_loss.
       case diversity_loss of
         None \<Rightarrow> Raise TypeError
       | Some d \<Rightarrow>
           Return (yloss + proximity_weight self * proximity_loss
                   - diversity_weight self * d
                   + categorical_penalty self * regularization_loss)))))"

subsection \<open>Initialisation\<close>

text \<open>
  \<^verbatim>\<open>do_cf_initializations\<close> (explainer_base.py, lines 272-302). One vector is drawn
  feature by feature, \<^verbatim>\<open>np.random.uniform(self.minx[0][jx], self.maxx[0][jx])\<close> for every
  \<^verbatim>\<open>jx\<close> in \<^verbatim>\<open>range(len(self.data_interface.feature_names))\<close>.
\<close>

fun draw_features :: "explainer \<Rightarrow> rng \<Rightarrow> nat list \<Rightarrow> (real list \<times> rng) outcome" where
  "draw_features self r [] = Return ([], r)"
| "draw_features self r (jx # jxs) =
     and_then (seq_get Bounds (minx self) jx) (\<lambda>lo.
     and_then (seq_get Bounds (maxx self) jx) (\<lambda>hi.
     and_then (draw_features self (snd (random_uniform r lo hi)) jxs) (\<lambda>(xs, r').
       Return (fst (random_uniform r lo hi) # xs, r'))))"

definition one_init :: "explainer \<Rightarrow> rng \<Rightarrow> (real list \<times> rng) outcome" where
  "one_init self r =
     draw_features self r [0..<length (feature_names (data_interface self))]"

fun init_set :: "explainer \<Rightarrow> rng \<Rightarrow> nat \<Rightarrow> (real list list \<times> rng) outcome" where
  "init_set self r 0 = Return ([], r)"
| "init_set self r (Suc n) =
     and_then (one_init self r) (\<lambda>(c, r1).
     and_then (init_set self r1 n) (\<lambda>(cs, r2). Return (c # cs, r2)))"

fun init_population :: "explainer \<Rightarrow> rng \<Rightarrow> nat \<Rightarrow> (real list list list \<times> rng) outcome" where
  "init_population self r 0 = Return ([], r)"
| "init_population self r (Suc n) =
     and_then (init_set self r (nat (total_CFs self))) (\<lambda>(s, r1).
     and_then (init_population self r1 n) (\<lambda>(ss, r2). Return (s # ss, r2)))"

definition set_counts :: "explainer \<Rightarrow> int \<Rightarrow> string \<Rightarrow> vary \<Rightarrow> explainer" where
  "set_counts self n algorithm ftv =
     (if algorithm = ''RandomInitCF''
      then self\<lparr>cf_init_weights := Some (n, algorithm, ftv), total_random_inits := n, total_CFs := 1\<rparr>
      else self\<lparr>cf_init_weights := Some (n, algorithm, ftv), total_random_inits := 0, total_CFs := n\<rparr>)"

definition set_freezer :: "explainer \<Rightarrow> vary \<Rightarrow> explainer" where
  "set_freezer self ftv =
     (if ftv \<noteq> features_to_vary self
      then self\<lparr>features_to_vary := ftv,
                feat_to_vary_idxs := get_indexes_of_features_to_vary (data_interface self) ftv,
                freezer := map (\<lambda>ix. if ix \<in> set (get_indexes_of_features_to_vary
                                                      (data_interface self) ftv)
                                       then 1 else 0) [0..<length (minx self)]\<rparr>
      else self)"

definition do_cf_initializations ::
  "explainer \<Rightarrow> rng \<Rightarrow> int \<Rightarrow> string \<Rightarrow> vary \<Rightarrow> (explainer \<times> rng) outcome" where
  "do_cf_initializations self r n algorithm ftv =
     (let self1 = set_freezer (set_counts self n algorithm ftv) ftv in
      if int (length (cfs self1)) \<noteq> total_CFs self1 then
        and_then (init_population self1 r (population_size self1)) (\<lambda>(pop, r').
          Return (self1\<lparr>cfs := pop\<rparr>, r'))
      else Return (self1, r))"

subsection \<open>Mating\<close>

text \<open>
  \<^verbatim>\<open>mate\<close> (dice_genetic.py, lines 177-201): for every gene a draw \<^verbatim>\<open>prob\<close>; below 0.45
  the gene of the first parent, below 0.90 the gene of the second, otherwise a uniform
  draw from the range of the feature.
\<close>

fun mate_genes :: "explainer \<Rightarrow> rng \<Rightarrow> nat \<Rightarrow> (real \<times> real) list \<Rightarrow> (real list \<times> rng) outcome" where
  "mate_genes self r jx [] = Return ([], r)"
| "mate_genes self r jx ((gp1, gp2) # rest) =
     (if fst (random_random r) < 0.45 then
        and_then (mate_genes self (snd (random_random r)) (Suc jx) rest) (\<lambda>(gs, r').
          Return (gp1 # gs, r'))
      else if fst (random_random r) < 0.90 then
        and_then (mate_genes self (snd (random_random r)) (Suc jx) rest) (\<lambda>(gs, r').
          Return (gp2 # gs, r'))
      else
        and_then (seq_get Bounds (minx self) jx) (\<lambda>lo.
        and_then (seq_get Bounds (maxx self) jx) (\<lambda>hi.
        and_then (mate_genes self (snd (random_uniform (snd (random_random r)) lo hi))
                    (Suc jx) rest) (\<lambda>(gs, r').
          Return (fst (random_uniform (snd (random_random r)) lo hi) # gs, r')))))"

fun mate_members ::
  "explainer \<Rightarrow> rng \<Rightarrow> real list list \<Rightarrow> real list list \<Rightarrow> nat list
     \<Rightarrow> (real list list \<times> rng) outcome" where
  "mate_members self r k1 k2 [] = Return ([], r)"
| "mate_members self r k1 k2 (i # is) =
     and_then (seq_get CfSet k1 i) (\<lambda>c1.
     and_then (seq_get CfSet k2 i) (\<lambda>c2.
     and_then (mate_genes self r 0 (zip c1 c2)) (\<lambda>(child, r1).
     and_then (mate_members self r1 k1 k2 is) (\<lambda>(children, r2).
       Return (child # children, r2)))))"

definition mate ::
  "explainer \<Rightarrow> rng \<Rightarrow> real list list \<Rightarrow> real list list \<Rightarrow> (real list list \<times> rng) outcome" where
  "mate self r k1 k2 = mate_members self r k1 k2 (members self)"

subsection \<open>The generations\<close>

text \<open>
  \<^verbatim>\<open>find_counterfactuals\<close> (lines 228-262). Every set of the population is scored; the
  best is the first set of least loss. The search stops when every member of the best
  set is valid. Otherwise the next generation is the sets of the \<open>10%\<close> least losses
  followed by the children of parents drawn by \<^verbatim>\<open>random.choice\<close> from
  \<^verbatim>\<open>population[:int(50 * self.population_size / 100)]\<close>.
\<close>

definition population_fitness :: "explainer \<Rightarrow> real list list list \<Rightarrow> (nat \<times> real) list outcome" where
  "population_fitness self population =
     traverse (\<lambda>k. and_then (seq_get Population population k) (\<lambda>s.
                 and_then (compute_loss self s) (\<lambda>loss. Return (k, loss))))
       [0..<population_size self]"

fun current_best :: "(nat \<times> real) list \<Rightarrow> (nat \<times> real) option \<Rightarrow> (nat \<times> real) option" where
  "current_best [] best = best"
| "current_best ((k, loss) # rest) None = current_best rest (Some (k, loss))"
| "current_best ((k, loss) # rest) (Some (kb, lb)) =
     current_best rest (if loss < lb then Some (k, loss) else Some (kb, lb))"

definition all_valid :: "explainer \<Rightarrow> real list \<Rightarrow> bool" where
  "all_valid self pop_pred =
     ((target_cf_class self = 0 \<and> list_all (\<lambda>i. i \<le> stopping_threshold self) pop_pred) \<or>
      (target_cf_class self = 1 \<and> list_all (\<lambda>i. i \<ge> stopping_threshold self) pop_pred))"

definition elite :: "explainer \<Rightarrow> real list list list \<Rightarrow> (nat \<times> real) list \<Rightarrow> real list list list" where
  "elite self population fitness =
     map (\<lambda>tup. population ! fst tup)
       (take (10 * population_size self div 100) (sort_key snd fitness))"

definition parents_pool :: "explainer \<Rightarrow> real list list list \<Rightarrow> real list list list" where
  "parents_pool self population = take (50 * population_size self div 100) population"

fun reproduce ::
  "nat \<Rightarrow> explainer \<Rightarrow> rng \<Rightarrow> real list list list \<Rightarrow> (real list list list \<times> rng) outcome" where
  "reproduce 0 self r population = Return ([], r)"
| "reproduce (Suc n) self r population =
     and_then (random_choice r (parents_pool self population)) (\<lambda>(parent1, r1).
     and_then (random_choice r1 (parents_pool self population)) (\<lambda>(parent2, r2).
     and_then (mate self r2 parent1 parent2) (\<lambda>(child, r3).
     and_then (reproduce n self r3 population) (\<lambda>(children, r4).
       Return (child # children, r4)))))"

definition next_generation ::
  "explainer \<Rightarrow> rng \<Rightarrow> real list list list \<Rightarrow> (nat \<times> real) list
     \<Rightarrow> (real list list list \<times> rng) outcome" where
  "next_generation self r population fitness =
     and_then (reproduce (90 * population_size self div 100) self r population) (\<lambda>(children, r').
       Return (elite self population fitness @ children, r'))"

fun generations ::
  "nat \<Rightarrow> explainer \<Rightarrow> rng \<Rightarrow> real list list list \<Rightarrow> (real list list \<times> rng) outcome" where
  "generations 0 self r population = OutOfFuel"
| "generations (Suc fuel) self r population =
     and_then (population_fitness self population) (\<lambda>fitness.
       case current_best fitness None of
         None \<Rightarrow> Raise UnboundLocalError
       | Some (k, loss) \<Rightarrow>
           if all_valid self (map (predict_fn self) (population ! k))
           then Return (population ! k, r)
           else and_then (next_generation self r population fitness) (\<lambda>(new_generation, r').
                  generations fuel self r' new_generation))"

text \<open>
  The head of \<^verbatim>\<open>find_counterfactuals\<close> (lines 208-224) stores the query and resolves
  the target; its result is \<^verbatim>\<open>self.final_cfs\<close> with \<^verbatim>\<open>self.cfs_preds\<close> (lines
  261-262).
\<close>

definition find_counterfactuals ::
  "nat \<Rightarrow> explainer \<Rightarrow> rng \<Rightarrow> real list \<Rightarrow> desired \<Rightarrow> real
     \<Rightarrow> (real list list \<times> real list \<times> explainer \<times> rng) outcome" where
  "find_counterfactuals fuel self r query_instance desired_class threshold =
     (let self1 = self\<lparr>x1 := query_instance,
            target_cf_class := fst (resolve_target (predict_fn self query_instance)
                                      desired_class threshold),
            stopping_threshold := snd (resolve_target (predict_fn self query_instance)
                                         desired_class threshold)\<rparr>
      in and_then (generations fuel self1 r (cfs self1)) (\<lambda>(best, r').
           Return (best, map (predict_fn self1) best, self1, r')))"

text \<open>
  \<^verbatim>\<open>generate_counterfactuals\<close> (lines 72-77): \<^verbatim>\<open>do_param_initializations\<close> runs
  \<^verbatim>\<open>do_cf_initializations\<close> when the triple of its arguments is new, then the search
  starts. (The feature weights and the weights of the loss are those of the record.)
\<close>

definition generate_counterfactuals ::
  "nat \<Rightarrow> explainer \<Rightarrow> rng \<Rightarrow> real list \<Rightarrow> int \<Rightarrow> desired \<Rightarrow> string \<Rightarrow> vary \<Rightarrow> real
     \<Rightarrow> (real list list \<times> real list \<times> explainer \<times> rng) outcome" where
  "generate_counterfactuals fuel self r query_instance n desired_class algorithm ftv threshold =
     and_then (if Some (n, algorithm, ftv) \<noteq> cf_init_weights self
               then do_cf_initializations self r n algorithm ftv
               else Return (self, r)) (\<lambda>(self1, r1).
       find_counterfactuals fuel self1 r1 query_instance desired_class threshold)"

definition constant_rng :: "real \<Rightarrow> real \<Rightarrow> rng" where
  "constant_rng u v = \<lparr> py_draws = (\<lambda>k. u), np_draws = (\<lambda>k. v), py_pos = 0, np_pos = 0 \<rparr>"

subsection \<open>What a terminated search returns\<close>

text \<open>
  When the loop of the generations returns, every member of the returned set is valid,
  and the set has \<^verbatim>\<open>self.total_CFs\<close> members when the sets of the population have.
\<close>

lemma generations_returns_valid:
  "generations fuel self r population = Return (best, r') \<Longrightarrow>
   all_valid self (map (predict_fn self) best)"
proof (induction fuel arbitrary: r population)
  case 0
  then show ?case by simp
next
  case (Suc fuel)
  from Suc.prems obtain fitness where
    f: "population_fitness self population = Return fitness"
    and c: "(case current_best fitness None of
         None \<Rightarrow> Raise UnboundLocalError
       | Some (k, loss) \<Rightarrow>
           if all_valid self (map (predict_fn self) (population ! k))
           then Return (population ! k, r)
           else and_then (next_generation self r population fitness) (\<lambda>(new_generation, r').
                  generations fuel self r' new_generation)) = Return (best, r')"
    by (auto dest!: and_then_Return)
  from c obtain k loss where b: "current_best fitness None = Some (k, loss)"
    by (cases "current_best fitness None") auto
  show ?case
  proof (cases "all_valid self (map (predict_fn self) (population ! k))")
    case True
    then show ?thesis using c b by simp
  next
    case False
    with c b obtain ng r1 where "generations fuel self r1 ng = Return (best, r')"
      by (auto dest!: and_then_Return)
    then show ?thesis by (rule Suc.IH)
  qed
qed


lemma traverse_all:
  assumes "traverse f xs = Return ys" "\<And>x y. x \<in> set xs \<Longrightarrow> f x = Return y \<Longrightarrow> P y"
  shows "list_all P ys"
  using assms
proof (induction xs arbitrary: ys)
  case Nil
  then show ?case by simp
next
  case (Cons x xs)
  from Cons.prems(1) obtain y zs where y: "f x = Return y" and zs: "traverse f xs = Return zs"
    and ys: "ys = y # zs"
    by (auto dest!: and_then_Return)
  have "P y"
    using Cons.prems(2) [of x y] y by simp
  moreover have "list_all P zs"
  proof (rule Cons.IH [OF zs])
    fix a b
    assume "a \<in> set xs" "f a = Return b"
    then show "P b"
      using Cons.prems(2) [of a b] by simp
  qed
  ultimately show ?case
    by (simp add: ys)
qed

lemma fitness_in_range:
  assumes "population_fitness self population = Return fitness"
  shows "list_all (\<lambda>kl. fst kl < length population) fitness"
  using assms unfolding population_fitness_def
  by (rule traverse_all) (auto simp: seq_get_def dest!: and_then_Return split: if_splits)

lemma current_best_mem:
  "current_best fitness b = Some kl \<Longrightarrow> kl \<in> set fitness \<or> b = Some kl"
proof (induction fitness b rule: current_best.induct)
  case (1 best)
  then show ?case by simp
next
  case (2 k loss rest)
  then show ?case by auto
next
  case (3 k loss rest kb lb)
  then show ?case by (auto split: if_splits)
qed

lemma mate_members_length:
  "mate_members self r k1 k2 ixs = Return (child, r') \<Longrightarrow> length child = length ixs"
proof (induction ixs arbitrary: r child)
  case Nil
  then show ?case by simp
next
  case (Cons i ixs)
  from Cons.prems obtain c r1 cs where
    "mate_members self r1 k1 k2 ixs = Return (cs, r')" "child = c # cs"
    by (auto dest!: and_then_Return)
  then show ?case
    using Cons.IH by auto
qed

lemma reproduce_lengths:
  "reproduce n self r population = Return (children, r') \<Longrightarrow>
   list_all (\<lambda>c. length c = length (members self)) children"
proof (induction n arbitrary: r children)
  case 0
  then show ?case by simp
next
  case (Suc n)
  from Suc.prems obtain p1 r1 p2 r2 c r3 cs where
    m: "mate self r2 p1 p2 = Return (c, r3)"
    and rest: "reproduce n self r3 population = Return (cs, r')" and ch: "children = c # cs"
    by (auto dest!: and_then_Return)
  have "length c = length (members self)"
    using m by (simp add: mate_def mate_members_length)
  then show ?case
    using Suc.IH [OF rest] ch by simp
qed

lemma elite_members:
  assumes "list_all (\<lambda>kl. fst kl < length population) fitness"
  shows "set (elite self population fitness) \<subseteq> set population"
proof -
  have sub: "set (take n (sort_key snd fitness)) \<subseteq> set fitness" for n
    using set_take_subset [of n "sort_key snd fitness"] by simp
  show ?thesis
  proof
    fix s
    assume "s \<in> set (elite self population fitness)"
    then obtain kl where kl: "kl \<in> set (take (10 * population_size self div 100)
        (sort_key snd fitness))" and s: "s = population ! fst kl"
      by (auto simp: elite_def)
    have "kl \<in> set fitness"
      using kl sub by blast
    then have "fst kl < length population"
      using assms by (simp add: list_all_iff)
    then show "s \<in> set population"
      unfolding s by (rule nth_mem)
  qed
qed

lemma generations_returns_sized:
  "generations fuel self r population = Return (best, r') \<Longrightarrow>
   list_all (\<lambda>s. length s = nat (total_CFs self)) population \<Longrightarrow>
   length best = nat (total_CFs self)"
proof (induction fuel arbitrary: r population)
  case 0
  then show ?case by simp
next
  case (Suc fuel)
  from Suc.prems(1) obtain fitness where
    f: "population_fitness self population = Return fitness"
    and c: "(case current_best fitness None of
         None \<Rightarrow> Raise UnboundLocalError
       | Some (k, loss) \<Rightarrow>
           if all_valid self (map (predict_fn self) (population ! k))
           then Return (population ! k, r)
           else and_then (next_generation self r population fitness) (\<lambda>(new_generation, r').
                  generations fuel self r' new_generation)) = Return (best, r')"
    by (auto dest!: and_then_Return)
  from c obtain k loss where b: "current_best fitness None = Some (k, loss)"
    by (cases "current_best fitness None") auto
  have rng: "list_all (\<lambda>kl. fst kl < length population) fitness"
    using f by (rule fitness_in_range)
  have "(k, loss) \<in> set fitness"
    using current_best_mem [OF b] by simp
  then have k: "k < length population"
    using rng by (auto simp: list_all_iff)
  show ?case
  proof (cases "all_valid self (map (predict_fn self) (population ! k))")
    case True
    then have "best = population ! k"
      using c b by simp
    then show ?thesis
      using Suc.prems(2) k by (simp add: list_all_length)
  next
    case False
    with c b obtain ng r1 where n: "next_generation self r population fitness = Return (ng, r1)"
      and g: "generations fuel self r1 ng = Return (best, r')"
      by (auto dest!: and_then_Return)
    from n obtain children where
      ch: "reproduce (90 * population_size self div 100) self r population = Return (children, r1)"
      and ng: "ng = elite self population fitness @ children"
      unfolding next_generation_def by (auto dest!: and_then_Return)
    have "list_all (\<lambda>s. length s = nat (total_CFs self)) children"
      using reproduce_lengths [OF ch] by (simp add: members_def)
    moreover have "list_all (\<lambda>s. length s = nat (total_CFs self)) (elite self population fitness)"
      using elite_members [OF rng, of self] Suc.prems(2) by (auto simp: list_all_iff)
    ultimately have "list_all (\<lambda>s. length s = nat (total_CFs self)) ng"
      by (simp add: ng)
    then show ?thesis
      by (rule Suc.IH [OF g])
  qed
qed

subsection \<open>A run with constant draws\<close>

lemma traverse_map:
  "(\<And>x. x \<in> set xs \<Longrightarrow> f x = Return (g x)) \<Longrightarrow> traverse f xs = Return (map g xs)"
  by (induction xs) simp_all

definition uniform_point :: "explainer \<Rightarrow> real \<Rightarrow> real list" where
  "uniform_point self v =
     map (\<lambda>jx. np_uniform (minx self ! jx) (maxx self ! jx) v)
       [0..<length (feature_names (data_interface self))]"

lemma draw_features_const:
  assumes "np_draws r = (\<lambda>k. v)"
    and "\<And>jx. jx \<in> set jxs \<Longrightarrow> jx < length (minx self) \<and> jx < length (maxx self)"
  shows "draw_features self r jxs =
           Return (map (\<lambda>jx. np_uniform (minx self ! jx) (maxx self ! jx) v) jxs,
                   r\<lparr>np_pos := np_pos r + length jxs\<rparr>)"
  using assms
proof (induction jxs arbitrary: r)
  case Nil
  then show ?case by simp
next
  case (Cons jx jxs)
  let ?r = "snd (random_uniform r (minx self ! jx) (maxx self ! jx))"
  have d: "np_draws ?r = (\<lambda>k. v)"
    using Cons.prems(1) by (simp add: random_uniform_def)
  have ih: "draw_features self ?r jxs =
      Return (map (\<lambda>jx. np_uniform (minx self ! jx) (maxx self ! jx) v) jxs,
              ?r\<lparr>np_pos := np_pos ?r + length jxs\<rparr>)"
    using Cons.IH [OF d] Cons.prems(2) by simp
  have b: "jx < length (minx self)" "jx < length (maxx self)"
    using Cons.prems(2) [of jx] by simp_all
  show ?case
    using b ih Cons.prems(1) by (simp add: seq_get_def random_uniform_def)
qed

lemma one_init_const:
  assumes "np_draws r = (\<lambda>k. v)"
    and "length (feature_names (data_interface self)) \<le> length (minx self)"
    and "length (feature_names (data_interface self)) \<le> length (maxx self)"
  shows "one_init self r =
           Return (uniform_point self v,
                   r\<lparr>np_pos := np_pos r + length (feature_names (data_interface self))\<rparr>)"
  unfolding one_init_def uniform_point_def
  using draw_features_const [OF assms(1), of "[0..<length (feature_names (data_interface self))]" self]
    assms(2,3) by simp

lemma init_set_const:
  assumes "np_draws r = (\<lambda>k. v)"
    and "length (feature_names (data_interface self)) \<le> length (minx self)"
    and "length (feature_names (data_interface self)) \<le> length (maxx self)"
  shows "init_set self r m =
           Return (replicate m (uniform_point self v),
                   r\<lparr>np_pos := np_pos r + m * length (feature_names (data_interface self))\<rparr>)"
  using assms(1)
proof (induction m arbitrary: r)
  case 0
  then show ?case by simp
next
  case (Suc m)
  let ?n = "length (feature_names (data_interface self))"
  have d: "np_draws (r\<lparr>np_pos := np_pos r + ?n\<rparr>) = (\<lambda>k. v)"
    using Suc.prems by simp
  show ?case
    by (simp add: one_init_const [OF Suc.prems assms(2,3)] Suc.IH [OF d] add.assoc)
qed

lemma init_population_const:
  assumes "np_draws r = (\<lambda>k. v)"
    and "length (feature_names (data_interface self)) \<le> length (minx self)"
    and "length (feature_names (data_interface self)) \<le> length (maxx self)"
  shows "init_population self r p =
           Return (replicate p (replicate (nat (total_CFs self)) (uniform_point self v)),
                   r\<lparr>np_pos := np_pos r
                       + p * (nat (total_CFs self) * length (feature_names (data_interface self)))\<rparr>)"
  using assms(1)
proof (induction p arbitrary: r)
  case 0
  then show ?case by simp
next
  case (Suc p)
  let ?n = "nat (total_CFs self) * length (feature_names (data_interface self))"
  have d: "np_draws (r\<lparr>np_pos := np_pos r + ?n\<rparr>) = (\<lambda>k. v)"
    using Suc.prems by simp
  show ?case
    by (simp add: init_set_const [OF Suc.prems assms(2,3)] Suc.IH [OF d] add.assoc)
qed

lemma current_best_const:
  "current_best (map (\<lambda>k. (k, c)) ks) (Some (k0, c)) = Some (k0, c)"
  by (induction ks) simp_all

lemma current_best_const_first:
  "current_best (map (\<lambda>k. (k, c)) (k0 # ks)) None = Some (k0, c)"
  by (simp add: current_best_const)

lemma two_cf_fields:
  "minx two_cf_explainer = [0, 0]" "maxx two_cf_explainer = [1, 1]"
  "feature_names (data_interface two_cf_explainer) = [''x'', ''y'']"
  "population_size two_cf_explainer = 100" "cfs two_cf_explainer = []"
  "cf_init_weights two_cf_explainer = None" "yloss_type two_cf_explainer = ''l2_loss''"
  "proximity_weight two_cf_explainer = 0" "diversity_weight two_cf_explainer = 0"
  "categorical_penalty two_cf_explainer = 0"
  "encoded_categorical_feature_indexes two_cf_explainer = []"
  "predict_fn two_cf_explainer = (\<lambda>x. x ! 0)" "total_CFs two_cf_explainer = 2"
  "features_to_vary two_cf_explainer = Features []"
  "get_indexes_of_features_to_vary (data_interface two_cf_explainer) (Features [''x'']) = [0]"
  by (simp_all add: two_cf_explainer_def two_features_def)

lemma two_cf_fields_all:
  "get_indexes_of_features_to_vary (data_interface two_cf_explainer) All = [0, 1]"
  "target_cf_class two_cf_explainer = 1" "stopping_threshold two_cf_explainer = 0.5"
  by (simp_all add: two_cf_explainer_def two_features_def)

text \<open>
  The loss of a set under the squared loss with no proximity, diversity or categorical
  term is the mean squared distance of the predictions to the target.
\<close>

lemma l2_loss_only:
  assumes "yloss_type self = ''l2_loss''" "proximity_weight self = 0"
    "diversity_weight self = 0" "encoded_categorical_feature_indexes self = []"
    "total_CFs self = int (length s)" "s \<noteq> []"
  shows "compute_loss self s =
           Return (sum_list (map (\<lambda>c. (predict_fn self c - target_cf_class self)\<^sup>2) s)
                   / real (length s))"
proof -
  have m: "members self = [0..<length s]"
    using assms(5) by (simp add: members_def)
  have y: "traverse (\<lambda>i. and_then (seq_get CfSet s i) (\<lambda>c. temp_loss self (predict_fn self c)))
             [0..<length s]
           = Return (map (\<lambda>i. (predict_fn self (s ! i) - target_cf_class self)\<^sup>2) [0..<length s])"
    by (rule traverse_map) (simp add: seq_get_def temp_loss_def assms(1))
  have e: "map (\<lambda>i. (predict_fn self (s ! i) - target_cf_class self)\<^sup>2) [0..<length s]
           = map (\<lambda>c. (predict_fn self c - target_cf_class self)\<^sup>2) s"
    by (rule nth_equalityI) simp_all
  have z: "traverse (\<lambda>i. Return (0::real)) [0..<length s] = Return (map (\<lambda>i. 0) [0..<length s])"
    by (rule traverse_map) simp
  have zero: "sum_list (map (\<lambda>i. 0::real) xs) = 0" for xs :: "nat list"
    by (induction xs) simp_all
  have yl: "compute_yloss self s =
      Return (sum_list (map (\<lambda>c. (predict_fn self c - target_cf_class self)\<^sup>2) s)
              / real (length s))"
    using assms(5,6) by (simp add: compute_yloss_def m y e)
  have rl: "compute_regularization_loss self s = Return 0"
    by (simp add: compute_regularization_loss_def m assms(4) z zero)
  show ?thesis
    by (simp add: compute_loss_def yl rl assms(2,3))
qed

text \<open>A population of equal sets whose members are valid: the first generation returns.\<close>

lemma generations_equal_sets:
  assumes "population = replicate (population_size self) s" "0 < population_size self"
    "compute_loss self s = Return c" "all_valid self (map (predict_fn self) s)"
  shows "generations (Suc fuel) self r population = Return (s, r)"
proof -
  let ?n = "population_size self"
  have f: "population_fitness self population = Return (map (\<lambda>k. (k, c)) [0..<?n])"
    unfolding population_fitness_def
    by (rule traverse_map) (simp add: seq_get_def assms(1,3))
  have u: "[0..<?n] = 0 # [1..<?n]"
    using assms(2) by (simp add: upt_conv_Cons)
  have b: "current_best (map (\<lambda>k. (k, c)) [0..<?n]) None = Some (0, c)"
    unfolding u by (rule current_best_const_first)
  have p0: "population ! 0 = s"
    using assms(1,2) by simp
  show ?thesis
    by (simp add: f b p0 assms(4))
qed

text \<open>
  C2 (the code differs). Two counterfactuals are requested with the algorithm
  "RandomInitCF": \<^verbatim>\<open>do_cf_initializations\<close> sets the size of a set to 1, every draw of
  NumPy is 0.9, the first generation is already valid, and the search returns one
  counterfactual.
\<close>

theorem random_init_returns_one:
  "\<exists>s r. generate_counterfactuals 1 two_cf_explainer (constant_rng 0.5 0.9) [0.2, 0.2] 2
            Opposite ''RandomInitCF'' All 0.5
          = Return ([[0.9, 0.9]], [0.9], s, r) \<and>
        total_CFs s = 1 \<and> total_random_inits s = 2"
proof -
  define S where "S = (set_freezer (set_counts two_cf_explainer 2 ''RandomInitCF'' All) All)
      \<lparr>cfs := replicate 100 [[0.9, 0.9]]\<rparr>"
  define R where "R = (constant_rng 0.5 0.9)\<lparr>np_pos := 200\<rparr>"
  have init: "do_cf_initializations two_cf_explainer (constant_rng 0.5 0.9) 2 ''RandomInitCF'' All
      = Return (S, R)"
    apply (simp add: do_cf_initializations_def Let_def)
    apply (simp add: set_counts_def set_freezer_def two_cf_fields two_cf_fields_all)
    apply (subst init_population_const [where v = "0.9"])
       apply (simp_all add: constant_rng_def two_cf_fields two_cf_fields_all uniform_point_def
        np_uniform_def S_def R_def set_counts_def set_freezer_def)
    done
  define T where "T = S\<lparr>x1 := [0.2, 0.2], target_cf_class := 1, stopping_threshold := 0.5\<rparr>"
  have fields: "yloss_type T = ''l2_loss''" "proximity_weight T = 0" "diversity_weight T = 0"
    "encoded_categorical_feature_indexes T = []" "total_CFs T = 1" "population_size T = 100"
    "predict_fn T = (\<lambda>x. x ! 0)" "target_cf_class T = 1" "stopping_threshold T = 0.5"
    "cfs T = replicate 100 [[0.9, 0.9]]" "total_random_inits T = 2"
    by (simp_all add: T_def S_def set_counts_def set_freezer_def two_cf_fields two_cf_fields_all)
  have loss: "compute_loss T [[0.9, 0.9]] = Return 0.01"
    using l2_loss_only [of T "[[0.9, 0.9]]"] fields by (simp add: power2_eq_square)
  have gen: "generations (Suc 0) T R (cfs T) = Return ([[0.9, 0.9]], R)"
    by (rule generations_equal_sets [OF _ _ loss]) (simp_all add: fields all_valid_def)
  have tgt: "resolve_target (predict_fn S [0.2, 0.2]) Opposite 0.5 = (1, 0.5)"
    by (simp add: S_def set_counts_def set_freezer_def two_cf_fields resolve_target_def
        resolve_class_def resolve_threshold_def py_round_def Let_def)
  have T_eq: "S\<lparr>x1 := [0.2, 0.2],
        target_cf_class := fst (resolve_target (predict_fn S [0.2, 0.2]) Opposite 0.5),
        stopping_threshold := snd (resolve_target (predict_fn S [0.2, 0.2]) Opposite 0.5)\<rparr> = T"
    unfolding tgt by (simp add: T_def)
  have find: "find_counterfactuals (Suc 0) S R [0.2, 0.2] Opposite 0.5
      = Return ([[0.9, 0.9]], [0.9], T, R)"
    unfolding find_counterfactuals_def Let_def T_eq gen by (simp add: fields)
  have "generate_counterfactuals (Suc 0) two_cf_explainer (constant_rng 0.5 0.9) [0.2, 0.2] 2
            Opposite ''RandomInitCF'' All 0.5 = Return ([[0.9, 0.9]], [0.9], T, R)"
    unfolding generate_counterfactuals_def two_cf_fields init using find by simp
  then show ?thesis
    using fields(5,11) unfolding One_nat_def by blast
qed


subsection \<open>A generation whose better half stands last\<close>

lemma sorted_constant: "(\<And>z. z \<in> set zs \<Longrightarrow> f z = (c::real)) \<Longrightarrow> sorted (map f zs)"
  by (induction zs) simp_all

lemma sort_two_blocks:
  assumes "\<And>x. x \<in> set xs \<Longrightarrow> f x = (a::real)" "\<And>y. y \<in> set ys \<Longrightarrow> f y = b" "b < a"
  shows "sort_key f (xs @ ys) = ys @ xs"
proof (rule properties_for_sort_key)
  show "mset (ys @ xs) = mset (xs @ ys)"
    by (simp add: add.commute)
  show "sorted (map f (ys @ xs))"
    using assms sorted_constant [of ys f b] sorted_constant [of xs f a]
    by (simp add: sorted_append)
  fix k
  assume "k \<in> set (ys @ xs)"
  then consider "k \<in> set ys" | "k \<in> set xs"
    by auto
  then show "filter (\<lambda>x. f k = f x) (ys @ xs) = filter (\<lambda>x. f k = f x) (xs @ ys)"
  proof cases
    case 1
    then have k: "f k = b" by (rule assms(2))
    have "filter (\<lambda>x. b = f x) ys = ys" "filter (\<lambda>x. b = f x) xs = []"
      using assms by (auto simp: filter_empty_conv intro: filter_True)
    then show ?thesis by (simp add: k)
  next
    case 2
    then have k: "f k = a" by (rule assms(1))
    have "filter (\<lambda>x. a = f x) xs = xs" "filter (\<lambda>x. a = f x) ys = []"
      using assms by (auto simp: filter_empty_conv intro: filter_True)
    then show ?thesis by (simp add: k)
  qed
qed

definition far_set :: "real list list" where
  "far_set = [[0.1, 0.1], [0.1, 0.1]]"

definition near_set :: "real list list" where
  "near_set = [[0.4, 0.4], [0.4, 0.4]]"

definition split_population :: "real list list list" where
  "split_population = replicate 50 far_set @ replicate 50 near_set"

definition split_fitness :: "(nat \<times> real) list" where
  "split_fitness = map (\<lambda>k. (k, 0.81)) [0..<50] @ map (\<lambda>k. (k, 0.36)) [50..<100]"

lemma split_losses:
  "compute_loss two_cf_explainer far_set = Return 0.81"
  "compute_loss two_cf_explainer near_set = Return 0.36"
  using l2_loss_only [of two_cf_explainer far_set] l2_loss_only [of two_cf_explainer near_set]
  by (simp_all add: two_cf_fields two_cf_fields_all far_set_def near_set_def power2_eq_square)

lemma split_population_fitness:
  "population_fitness two_cf_explainer split_population = Return split_fitness"
proof -
  let ?g = "\<lambda>k. (k, if k < 50 then 0.81 else (0.36::real))"
  have nth: "split_population ! k = (if k < 50 then far_set else near_set)" if "k < 100" for k
    using that by (simp add: split_population_def nth_append)
  have len: "length split_population = 100"
    by (simp add: split_population_def)
  have one: "and_then (seq_get Population split_population k)
               (\<lambda>s. and_then (compute_loss two_cf_explainer s) (\<lambda>loss. Return (k, loss)))
             = Return (?g k)" if "k \<in> set [0..<100]" for k
  proof -
    have k: "k < 100" using that by simp
    show ?thesis
      using split_losses by (simp add: seq_get_def len k nth [OF k])
  qed
  have "population_fitness two_cf_explainer split_population = Return (map ?g [0..<100])"
    unfolding population_fitness_def two_cf_fields
    by (rule traverse_map) (rule one)
  moreover have "[0..<100] = [0..<50] @ [50..<100]"
    using upt_add_eq_append [of 0 50 50] by simp
  moreover have "map ?g [0..<50] = map (\<lambda>k. (k, 0.81)) [0..<50]"
    "map ?g [50..<100] = map (\<lambda>k. (k, 0.36)) [50..<100]"
    by simp_all
  ultimately show ?thesis
    by (simp add: split_fitness_def)
qed

lemma split_fitness_sorted:
  "sort_key snd split_fitness
     = map (\<lambda>k. (k, 0.36)) [50..<100] @ map (\<lambda>k. (k, 0.81)) [0..<50]"
  unfolding split_fitness_def
  by (rule sort_two_blocks [where a = "0.81" and b = "0.36"]) auto

text \<open>
  C3 (the code differs). In a population whose sets 0 to 49 have loss 0.81 and whose
  sets 50 to 99 have loss 0.36, the half of least loss is the sets 50 to 99 and the
  elite is ten of them, but the parents are drawn from the sets at positions 0 to 49:
  the list that is sliced is the population, not the population sorted by loss.
\<close>

theorem parents_are_not_the_fittest:
  "population_fitness two_cf_explainer split_population = Return split_fitness \<and>
   map fst (take (50 * population_size two_cf_explainer div 100) (sort_key snd split_fitness))
     = [50..<100] \<and>
   elite two_cf_explainer split_population split_fitness = replicate 10 near_set \<and>
   parents_pool two_cf_explainer split_population = replicate 50 far_set \<and>
   compute_loss two_cf_explainer far_set = Return 0.81 \<and>
   compute_loss two_cf_explainer near_set = Return 0.36 \<and>
   (\<exists>r. random_choice (constant_rng 0.5 0.9) (parents_pool two_cf_explainer split_population)
          = Return (far_set, r))"
proof -
  have best: "map fst (take (50 * population_size two_cf_explainer div 100)
      (sort_key snd split_fitness)) = [50..<100]"
    by (simp add: split_fitness_sorted two_cf_fields comp_def)
  have "take 10 (map (\<lambda>k. (k, 0.36::real)) [50..<100]) = map (\<lambda>k. (k, 0.36)) [50..<60]"
    by (simp add: take_map)
  then have "elite two_cf_explainer split_population split_fitness
      = map (\<lambda>k. split_population ! k) [50..<60]"
    by (simp add: elite_def split_fitness_sorted two_cf_fields comp_def)
  also have "\<dots> = map (\<lambda>k. near_set) [50..<60]"
    by (rule map_cong) (auto simp: split_population_def nth_append)
  also have "\<dots> = replicate 10 near_set"
    by (simp only: map_replicate_const length_upt) simp
  finally have el: "elite two_cf_explainer split_population split_fitness = replicate 10 near_set" .
  have pool: "parents_pool two_cf_explainer split_population = replicate 50 far_set"
    by (simp add: parents_pool_def two_cf_fields split_population_def)
  have ch: "\<exists>r. random_choice (constant_rng 0.5 0.9)
      (parents_pool two_cf_explainer split_population) = Return (far_set, r)"
    unfolding pool by (simp add: random_choice_def constant_rng_def seq_get_def)
  show ?thesis
    using split_population_fitness best el pool split_losses ch by blast
qed

subsection \<open>Fixed features\<close>

text \<open>
  C4 (the code differs). Only \<open>x\<close> may vary. The initialisation computes the freezer
  \<open>[1, 0]\<close> and never reads it: every vector of the population has \<open>y = 0.9\<close>, a draw,
  whatever the query is. Mating two parents that both have \<open>y = 0.2\<close> gives, when the
  draw of \<^verbatim>\<open>random.random\<close> is 0.95, children with \<open>y = 0.7\<close>: a mutation of the fixed
  feature.
\<close>

theorem fixed_feature_is_drawn:
  "(\<exists>s r. do_cf_initializations two_cf_explainer (constant_rng 0.5 0.9) 2 ''DiverseCF''
             (Features [''x'']) = Return (s, r) \<and>
          freezer s = [1, 0] \<and> feat_to_vary_idxs s = [0] \<and>
          cfs s = replicate 100 [[0.9, 0.9], [0.9, 0.9]]) \<and>
   (\<exists>r. mate two_cf_explainer (constant_rng 0.95 0.7) [[0.5, 0.2], [0.6, 0.2]]
           [[0.3, 0.2], [0.4, 0.2]] = Return ([[0.7, 0.7], [0.7, 0.7]], r))"
proof -
  define S where "S = (set_freezer (set_counts two_cf_explainer 2 ''DiverseCF'' (Features [''x'']))
      (Features [''x'']))\<lparr>cfs := replicate 100 [[0.9, 0.9], [0.9, 0.9]]\<rparr>"
  define R where "R = (constant_rng 0.5 0.9)\<lparr>np_pos := 400\<rparr>"
  have init: "do_cf_initializations two_cf_explainer (constant_rng 0.5 0.9) 2 ''DiverseCF''
      (Features [''x'']) = Return (S, R)"
    apply (simp add: do_cf_initializations_def Let_def)
    apply (simp add: set_counts_def set_freezer_def two_cf_fields two_cf_fields_all)
    apply (subst init_population_const [where v = "0.9"])
       apply (simp_all add: constant_rng_def two_cf_fields two_cf_fields_all uniform_point_def
        np_uniform_def S_def R_def set_counts_def set_freezer_def numeral_2_eq_2)
    done
  have fz: "freezer S = [1, 0]" "feat_to_vary_idxs S = [0]"
    "cfs S = replicate 100 [[0.9, 0.9], [0.9, 0.9]]"
    by (simp_all add: S_def set_counts_def set_freezer_def two_cf_fields two_cf_fields_all
        upt_rec [of 0] upt_rec [of 1])
  have m: "\<exists>r. mate two_cf_explainer (constant_rng 0.95 0.7) [[0.5, 0.2], [0.6, 0.2]]
           [[0.3, 0.2], [0.4, 0.2]] = Return ([[0.7, 0.7], [0.7, 0.7]], r)"
    by (simp add: mate_def members_def two_cf_fields upt_two seq_get_def
        random_random_def random_uniform_def np_uniform_def constant_rng_def)
  show ?thesis
    using init fz m by blast
qed

end
